theory Spec2Isabelle
  imports Main "HOL-Library.Code_Target_Nat"
begin

section \<open>MatrixLib: the dense matrix class of matrix.h\<close>

text \<open>
  The class \<^verbatim>\<open>matrix<T>\<close> holds \<^verbatim>\<open>m_rows\<close>, \<^verbatim>\<open>m_columns\<close> and a row-major
  \<^verbatim>\<open>std::vector<T> m_data\<close>. Every member function is embedded as a HOL function on a
  record of these three fields. An exception is a value \<open>Inl e\<close>, a normal return is
  \<open>Inr v\<close>. The model is that of the default build (\<^verbatim>\<open>MATRIX_NOTHROW\<close> undefined), in
  which every check is compiled in.

  Sizes and indices (\<^verbatim>\<open>size_t\<close>) are natural numbers, and every product or sum the
  source computes in \<^verbatim>\<open>size_t\<close> is reduced modulo \<open>2 ^ 64\<close>, as the machine does.
  The element type \<^verbatim>\<open>T\<close> is a type variable with the operations the class uses and no
  law assumed about them; the value-initialised element \<^verbatim>\<open>T()\<close> is written \<open>0\<close>.
\<close>

subsection \<open>Errors and results\<close>

text \<open>
  The first five constructors are the enumerators of \<^verbatim>\<open>__error_code\<close>; each stands for
  the \<^verbatim>\<open>std::runtime_error\<close> thrown with the corresponding message.
  \<open>UNDEFINED_READ\<close> is not an exception and the source never throws it: it marks a run
  that reads \<^verbatim>\<open>m_data[i]\<close> with \<open>i\<close> beyond the vector. C++ leaves the value read, and the
  run from there on, undefined, so the model has no value to go on with.
\<close>

datatype error_code =
    ERR_ROW_RANGE
  | ERR_COL_RANGE
  | ERR_INVALID_SIZE
  | ERR_INCOMPATIBLE
  | ERR_NOT_SQUARE
  | UNDEFINED_READ

definition bind_result :: "error_code + 'a \<Rightarrow> ('a \<Rightarrow> error_code + 'b) \<Rightarrow> error_code + 'b" where
  "bind_result x f = (case x of Inl e \<Rightarrow> Inl e | Inr v \<Rightarrow> f v)"

text \<open>\<^verbatim>\<open>for (size_t i = start; i < n; i++) body\<close>, threading the state the body updates
  and leaving the loop at the first exception.\<close>

function for_loop ::
  "nat \<Rightarrow> nat \<Rightarrow> (nat \<Rightarrow> 's \<Rightarrow> error_code + 's) \<Rightarrow> 's \<Rightarrow> error_code + 's" where
  "for_loop i n body s =
     (if i < n
      then (case body i s of Inl e \<Rightarrow> Inl e | Inr s' \<Rightarrow> for_loop (Suc i) n body s')
      else Inr s)"
  by pat_completeness auto
termination
  by (relation "measure (\<lambda>(i, n, body, s). n - i)") auto

declare for_loop.simps [simp del]

subsection \<open>Arithmetic in \<open>size_t\<close>\<close>

text \<open>The source does not fix the width of \<^verbatim>\<open>size_t\<close>; the model takes the 64-bit one.
  \<open>size_t n\<close> is the value the machine holds for a product or sum whose exact value is
  \<open>n\<close>. The general theorems below do not depend on the width.\<close>

definition size_modulus :: nat where
  "size_modulus = 2 ^ 64"

definition SIZE_MAX :: nat where
  "SIZE_MAX = size_modulus - 1"

definition size_t :: "nat \<Rightarrow> nat" where
  "size_t n = n mod size_modulus"

subsection \<open>The vector\<close>

text \<open>\<^verbatim>\<open>std::vector::operator[]\<close>, read and write, without a bounds check. A read past
  the end has no defined value. A store past the end lands outside the elements of the
  vector: it is undefined behaviour in C++ as well, nothing in the source stops the run
  there, and the elements of the vector stay as they are.\<close>

definition vec_get :: "'a list \<Rightarrow> nat \<Rightarrow> error_code + 'a" where
  "vec_get xs i = (if i < length xs then Inr (xs ! i) else Inl UNDEFINED_READ)"

definition vec_set :: "'a list \<Rightarrow> nat \<Rightarrow> 'a \<Rightarrow> 'a list" where
  "vec_set xs i v = (if i < length xs then xs[i := v] else xs)"

subsection \<open>The class\<close>

record 'a matrix =
  m_rows :: nat
  m_columns :: nat
  m_data :: "'a list"

text \<open>The constructor: \<^verbatim>\<open>resize\<close> value-initialises the vector, the loop then stores
  \<open>fill\<close> in every slot. The element count \<^verbatim>\<open>rows * columns\<close> is a \<^verbatim>\<open>size_t\<close>
  product, in \<^verbatim>\<open>resize\<close> and in the loop bound alike. A call with two arguments passes
  \<open>fill = 0\<close>.\<close>

definition matrix_new :: "nat \<Rightarrow> nat \<Rightarrow> 'a::zero \<Rightarrow> error_code + 'a matrix" where
  "matrix_new rows columns fill =
     (if rows < 1 \<or> columns < 1 then Inl ERR_INVALID_SIZE
      else bind_result
        (for_loop 0 (size_t (rows * columns)) (\<lambda>index d. Inr (vec_set d index fill))
           (replicate (size_t (rows * columns)) 0))
        (\<lambda>d. Inr \<lparr>m_rows = rows, m_columns = columns, m_data = d\<rparr>))"

definition rows :: "'a matrix \<Rightarrow> nat" where
  "rows m = m_rows m"

definition columns :: "'a matrix \<Rightarrow> nat" where
  "columns m = m_columns m"

text \<open>\<^verbatim>\<open>operator()(row, column)\<close> returns a reference: \<open>at\<close> is the read through it,
  \<open>set_at\<close> the write.\<close>

definition at :: "'a matrix \<Rightarrow> nat \<Rightarrow> nat \<Rightarrow> error_code + 'a" where
  "at m row column =
     (if row < 0 \<or> row \<ge> m_rows m then Inl ERR_ROW_RANGE
      else if column < 0 \<or> column \<ge> m_columns m then Inl ERR_COL_RANGE
      else vec_get (m_data m) (size_t (row * m_columns m + column)))"

definition set_at :: "'a matrix \<Rightarrow> nat \<Rightarrow> nat \<Rightarrow> 'a \<Rightarrow> error_code + 'a matrix" where
  "set_at m row column v =
     (if row < 0 \<or> row \<ge> m_rows m then Inl ERR_ROW_RANGE
      else if column < 0 \<or> column \<ge> m_columns m then Inl ERR_COL_RANGE
      else Inr (m\<lparr>m_data := vec_set (m_data m) (size_t (row * m_columns m + column)) v\<rparr>))"

definition row_vector :: "'a::zero matrix \<Rightarrow> nat \<Rightarrow> error_code + 'a matrix" where
  "row_vector m row =
     (if row < 0 \<or> row \<ge> m_rows m then Inl ERR_ROW_RANGE
      else bind_result (matrix_new 1 (m_columns m) 0) (\<lambda>result.
        for_loop 0 (m_columns m) (\<lambda>column result.
          bind_result (at m row column) (\<lambda>v. set_at result 0 column v)) result))"

definition column_vector :: "'a::zero matrix \<Rightarrow> nat \<Rightarrow> error_code + 'a matrix" where
  "column_vector m column =
     (if column < 0 \<or> column \<ge> m_columns m then Inl ERR_COL_RANGE
      else bind_result (matrix_new (m_columns m) 1 0) (\<lambda>result.
        for_loop 0 (m_rows m) (\<lambda>row result.
          bind_result (at m row column) (\<lambda>v. set_at result row 0 v)) result))"

text \<open>\<^verbatim>\<open>transform\<close>: the visitor receives the position and a reference to the element;
  it is modelled by the value it leaves in the element.\<close>

definition transform :: "'a matrix \<Rightarrow> (nat \<Rightarrow> nat \<Rightarrow> 'a \<Rightarrow> 'a) \<Rightarrow> error_code + 'a matrix" where
  "transform m lambda =
     for_loop 0 (m_rows m) (\<lambda>row result.
       for_loop 0 (m_columns m) (\<lambda>column result.
         bind_result (at result row column) (\<lambda>v. set_at result row column (lambda row column v)))
       result) m"

text \<open>\<^verbatim>\<open>operator=(std::initializer_list<T>)\<close>.\<close>

definition assign :: "'a matrix \<Rightarrow> 'a list \<Rightarrow> error_code + 'a matrix" where
  "assign m operand =
     (if size_t (m_rows m * m_columns m) \<noteq> length operand then Inl ERR_INCOMPATIBLE
      else Inr (m\<lparr>m_data := operand\<rparr>))"

text \<open>\<^verbatim>\<open>operator+(matrix<T>&)\<close> and \<^verbatim>\<open>operator-(matrix<T>&)\<close>.\<close>

definition add :: "'a::{zero,plus} matrix \<Rightarrow> 'a matrix \<Rightarrow> error_code + 'a matrix" where
  "add m operand =
     (if m_rows m \<noteq> m_rows operand \<or> m_columns m \<noteq> m_columns operand then Inl ERR_INCOMPATIBLE
      else bind_result (matrix_new (m_rows m) (m_columns m) 0) (\<lambda>result.
        for_loop 0 (m_rows m) (\<lambda>row result.
          for_loop 0 (m_columns m) (\<lambda>column result.
            bind_result (at m row column) (\<lambda>x.
            bind_result (at operand row column) (\<lambda>y.
              set_at result row column (x + y))))
          result) result))"

definition subtract :: "'a::{zero,minus} matrix \<Rightarrow> 'a matrix \<Rightarrow> error_code + 'a matrix" where
  "subtract m operand =
     (if m_rows m \<noteq> m_rows operand \<or> m_columns m \<noteq> m_columns operand then Inl ERR_INCOMPATIBLE
      else bind_result (matrix_new (m_rows m) (m_columns m) 0) (\<lambda>result.
        for_loop 0 (m_rows m) (\<lambda>row result.
          for_loop 0 (m_columns m) (\<lambda>column result.
            bind_result (at m row column) (\<lambda>x.
            bind_result (at operand row column) (\<lambda>y.
              set_at result row column (x - y))))
          result) result))"

text \<open>Unary \<^verbatim>\<open>operator-()\<close>: the loop body reads \<^verbatim>\<open>result(row, column)\<close>, not
  \<^verbatim>\<open>(*this)(row, column)\<close>.\<close>

definition negate :: "'a::{zero,uminus} matrix \<Rightarrow> error_code + 'a matrix" where
  "negate m =
     bind_result (matrix_new (m_rows m) (m_columns m) 0) (\<lambda>result.
       for_loop 0 (m_rows m) (\<lambda>row result.
         for_loop 0 (m_columns m) (\<lambda>column result.
           bind_result (at result row column) (\<lambda>x.
             set_at result row column (- x)))
         result) result)"

text \<open>\<^verbatim>\<open>operator*(T)\<close>: the loop body adds the operand to \<^verbatim>\<open>result(row, column)\<close>.\<close>

definition scale :: "'a::{zero,plus} matrix \<Rightarrow> 'a \<Rightarrow> error_code + 'a matrix" where
  "scale m operand =
     bind_result (matrix_new (m_rows m) (m_columns m) 0) (\<lambda>result.
       for_loop 0 (m_rows m) (\<lambda>row result.
         for_loop 0 (m_columns m) (\<lambda>column result.
           bind_result (at result row column) (\<lambda>x.
             set_at result row column (x + operand)))
         result) result)"

text \<open>\<^verbatim>\<open>operator*(matrix<T>)\<close>.\<close>

definition multiply :: "'a::{zero,plus,times} matrix \<Rightarrow> 'a matrix \<Rightarrow> error_code + 'a matrix" where
  "multiply m operand =
     (if m_columns m \<noteq> m_rows operand then Inl ERR_INCOMPATIBLE
      else bind_result (matrix_new (m_rows m) (m_columns operand) 0) (\<lambda>result.
        for_loop 0 (m_rows m) (\<lambda>row result.
          for_loop 0 (m_columns operand) (\<lambda>column result.
            for_loop 0 (m_columns m) (\<lambda>element result.
              bind_result (at result row column) (\<lambda>acc.
              bind_result (at m row element) (\<lambda>x.
              bind_result (at operand element column) (\<lambda>y.
                set_at result row column (acc + x * y)))))
            result) result) result))"

definition transpose_matrix :: "'a::zero matrix \<Rightarrow> error_code + 'a matrix" where
  "transpose_matrix m =
     bind_result (matrix_new (m_columns m) (m_rows m) 0) (\<lambda>result.
       for_loop 0 (m_rows m) (\<lambda>row result.
         for_loop 0 (m_columns m) (\<lambda>column result.
           bind_result (at m row column) (\<lambda>v. set_at result column row v))
         result) result)"

text \<open>\<^verbatim>\<open>minor\<close>: the loops carry the result and the running \<^verbatim>\<open>index\<close>; the two
  \<^verbatim>\<open>continue\<close> statements leave both as they are. The store
  \<^verbatim>\<open>result.m_data[index++]\<close> is unchecked: with \<open>at_row\<close> or \<open>at_column\<close> outside the
  matrix more elements are kept than the result holds, and the last stores run past its
  vector. The subtractions \<^verbatim>\<open>m_rows - 1\<close> and
  \<^verbatim>\<open>m_columns - 1\<close> are those of \<^verbatim>\<open>size_t\<close> on every matrix the constructor can
  return, whose dimensions are at least 1.\<close>

definition minor :: "'a::zero matrix \<Rightarrow> nat \<Rightarrow> nat \<Rightarrow> error_code + 'a matrix" where
  "minor m at_row at_column =
     bind_result (matrix_new (m_rows m - 1) (m_columns m - 1) 0) (\<lambda>result.
     bind_result
       (for_loop 0 (m_rows m) (\<lambda>row state.
          for_loop 0 (m_columns m) (\<lambda>column (result, index).
            if row = at_row then Inr (result, index)
            else if column = at_column then Inr (result, index)
            else bind_result (at m row column) (\<lambda>v.
                   Inr (result\<lparr>m_data := vec_set (m_data result) index v\<rparr>, index + 1)))
          state) (result, 0))
       (\<lambda>(result, index). Inr result))"

subsection \<open>Sequencing and loops\<close>

lemma bind_result_Inr [simp]: "bind_result (Inr v) f = f v"
  by (simp add: bind_result_def)

lemma bind_result_Inl [simp]: "bind_result (Inl e) f = Inl e"
  by (simp add: bind_result_def)

lemma bind_result_cong [fundef_cong]:
  "x = y \<Longrightarrow> (\<And>v. y = Inr v \<Longrightarrow> f v = g v) \<Longrightarrow> bind_result x f = bind_result y g"
  by (cases y) simp_all

lemma for_loop_done [simp]: "for_loop n n body s = Inr s"
  by (simp add: for_loop.simps)

lemma for_loop_step: "i < n \<Longrightarrow> for_loop i n body s = bind_result (body i s) (for_loop (Suc i) n body)"
  by (subst for_loop.simps) (simp add: bind_result_def)

lemma for_loop_cong [fundef_cong]:
  assumes "i = i'" "n = n'" "s = s'"
    and "\<And>k t. i' \<le> k \<Longrightarrow> k < n' \<Longrightarrow> body k t = body' k t"
  shows "for_loop i n body s = for_loop i' n' body' s'"
proof -
  have "for_loop i' n' body s' = for_loop i' n' body' s'"
    using assms(4)
  proof (induction "n' - i'" arbitrary: i' s')
    case 0
    then show ?case by (simp add: for_loop.simps)
  next
    case (Suc d)
    then have lt: "i' < n'" by simp
    have eq: "body i' s' = body' i' s'" using Suc.prems lt by simp
    have "for_loop (Suc i') n' body t = for_loop (Suc i') n' body' t" for t
      by (rule Suc.hyps(1)) (use Suc.hyps(2) Suc.prems in auto)
    then show ?case
      by (simp add: for_loop_step lt eq cong: bind_result_cong)
  qed
  then show ?thesis using assms(1-3) by simp
qed

lemma for_loop_rule:
  assumes "I i s" and "i \<le> n"
    and "\<And>k t. i \<le> k \<Longrightarrow> k < n \<Longrightarrow> I k t \<Longrightarrow> \<exists>t'. body k t = Inr t' \<and> I (Suc k) t'"
  shows "\<exists>t. for_loop i n body s = Inr t \<and> I n t"
  using assms
proof (induction "n - i" arbitrary: i s)
  case 0
  then show ?case by simp
next
  case (Suc d)
  then have lt: "i < n" by simp
  obtain t' where t': "body i s = Inr t'" "I (Suc i) t'"
    using Suc.prems(3)[of i s] lt Suc.prems(1) by auto
  have "\<exists>t. for_loop (Suc i) n body t' = Inr t \<and> I n t"
    by (rule Suc.hyps(1)) (use Suc.hyps(2) Suc.prems t' lt in auto)
  then show ?case by (simp add: for_loop_step lt t')
qed

lemma for_loop_preserves:
  assumes "for_loop i n body s = Inr t" and "P s"
    and "\<And>k u u'. P u \<Longrightarrow> body k u = Inr u' \<Longrightarrow> P u'"
  shows "P t"
  using assms
proof (induction "n - i" arbitrary: i s)
  case 0
  then show ?case by (simp add: for_loop.simps)
next
  case (Suc d)
  then have lt: "i < n" by simp
  from Suc.prems(1) obtain s' where s': "body i s = Inr s'" "for_loop (Suc i) n body s' = Inr t"
    by (cases "body i s") (simp_all add: for_loop_step lt)
  have "P s'" using Suc.prems(3)[OF Suc.prems(2) s'(1)] .
  show ?case
    by (rule Suc.hyps(1)[OF _ s'(2) \<open>P s'\<close>]) (use Suc.hyps(2) Suc.prems(3) in auto)
qed

lemma for_loop2_rule:
  assumes "P 0 0 s"
    and cell: "\<And>r c t. r < R \<Longrightarrow> c < C \<Longrightarrow> P r c t \<Longrightarrow> \<exists>t'. body r c t = Inr t' \<and> P r (Suc c) t'"
    and line: "\<And>r t. r < R \<Longrightarrow> P r C t \<Longrightarrow> P (Suc r) 0 t"
  shows "\<exists>t. for_loop 0 R (\<lambda>r u. for_loop 0 C (\<lambda>c u. body r c u) u) s = Inr t \<and> P R 0 t"
proof (rule for_loop_rule[where I = "\<lambda>r t. P r 0 t"])
  show "P 0 0 s" by fact
  show "0 \<le> R" by simp
next
  fix r t assume r: "r < R" and P: "P r 0 t"
  have "\<exists>t'. for_loop 0 C (\<lambda>c u. body r c u) t = Inr t' \<and> P r C t'"
    by (rule for_loop_rule[where I = "\<lambda>c t. P r c t"]) (use P r cell in auto)
  then show "\<exists>t'. for_loop 0 C (\<lambda>c u. body r c u) t = Inr t' \<and> P (Suc r) 0 t'"
    using line[OF r] by auto
qed

subsection \<open>The class invariant and the elements of a matrix\<close>

text \<open>The invariant of the data model: both dimensions are positive and the vector holds
  \<open>rows * columns\<close> elements. The last conjunct is the type of the fields: the length of a
  \<^verbatim>\<open>std::vector\<close> is a \<^verbatim>\<open>size_t\<close> value, so it holds of every vector the program
  can have, and with it both dimensions are \<^verbatim>\<open>size_t\<close> values too. \<open>elem m r c\<close> is the element stored for position \<open>(r, c)\<close>,
  \<open>put\<close> the matrix after a store at that position, \<open>blank\<close> a matrix as the constructor
  leaves it.\<close>

definition matrix_inv :: "'a matrix \<Rightarrow> bool" where
  "matrix_inv m \<longleftrightarrow>
     m_rows m \<ge> 1 \<and> m_columns m \<ge> 1 \<and> length (m_data m) = m_rows m * m_columns m \<and>
     length (m_data m) \<le> SIZE_MAX"

definition elem :: "'a matrix \<Rightarrow> nat \<Rightarrow> nat \<Rightarrow> 'a" where
  "elem m r c = m_data m ! (r * m_columns m + c)"

definition put :: "'a matrix \<Rightarrow> nat \<Rightarrow> nat \<Rightarrow> 'a \<Rightarrow> 'a matrix" where
  "put m r c v = m\<lparr>m_data := (m_data m)[r * m_columns m + c := v]\<rparr>"

lemma index_bound:
  fixes r c R C :: nat
  assumes "r < R" "c < C"
  shows "r * C + c < R * C"
proof -
  have "r * C + c < Suc r * C" using assms(2) by simp
  also have "\<dots> \<le> R * C" using assms(1) by (intro mult_le_mono1) simp
  finally show ?thesis .
qed

lemma index_inj:
  fixes r c r' c' C :: nat
  assumes "c < C" "c' < C"
  shows "r * C + c = r' * C + c' \<longleftrightarrow> r = r' \<and> c = c'"
proof
  assume eq: "r * C + c = r' * C + c'"
  have "(r * C + c) div C = r" "(r' * C + c') div C = r'" using assms by simp_all
  then have "r = r'" using eq by simp
  then show "r = r' \<and> c = c'" using eq by simp
qed simp

lemma size_modulus_pos [simp]: "0 < size_modulus"
  by (simp add: size_modulus_def)

lemma size_t_id: "n \<le> SIZE_MAX \<Longrightarrow> size_t n = n"
proof -
  assume "n \<le> SIZE_MAX"
  then have "n < size_modulus" using size_modulus_pos unfolding SIZE_MAX_def by linarith
  then show ?thesis by (simp add: size_t_def)
qed

lemma size_t_index:
  assumes "matrix_inv m" "r < m_rows m" "c < m_columns m"
  shows "size_t (r * m_columns m + c) = r * m_columns m + c"
    and "r * m_columns m + c < length (m_data m)"
proof -
  show lt: "r * m_columns m + c < length (m_data m)"
    using index_bound[OF assms(2,3)] assms(1) by (simp add: matrix_inv_def)
  have "length (m_data m) \<le> SIZE_MAX" using assms(1) by (simp add: matrix_inv_def)
  then show "size_t (r * m_columns m + c) = r * m_columns m + c"
    using lt by (intro size_t_id) simp
qed

lemma matrix_inv_size:
  assumes "matrix_inv m"
  shows "m_rows m * m_columns m \<le> SIZE_MAX" "m_rows m \<le> SIZE_MAX" "m_columns m \<le> SIZE_MAX"
proof -
  show le: "m_rows m * m_columns m \<le> SIZE_MAX" using assms by (simp add: matrix_inv_def)
  have pos: "1 \<le> m_rows m" "1 \<le> m_columns m" using assms by (simp_all add: matrix_inv_def)
  have "m_rows m \<le> m_rows m * m_columns m" using pos(2) by simp
  then show "m_rows m \<le> SIZE_MAX" using le by (rule order_trans)
  have "m_columns m \<le> m_rows m * m_columns m" using pos(1) by simp
  then show "m_columns m \<le> SIZE_MAX" using le by (rule order_trans)
qed

lemma at_elem:
  "matrix_inv m \<Longrightarrow> r < m_rows m \<Longrightarrow> c < m_columns m \<Longrightarrow> at m r c = Inr (elem m r c)"
  by (simp add: at_def vec_get_def elem_def size_t_index)

lemma set_at_put:
  "matrix_inv m \<Longrightarrow> r < m_rows m \<Longrightarrow> c < m_columns m \<Longrightarrow> set_at m r c v = Inr (put m r c v)"
  by (simp add: set_at_def vec_set_def put_def size_t_index)

lemma put_shape [simp]:
  "m_rows (put m r c v) = m_rows m" "m_columns (put m r c v) = m_columns m"
  "length (m_data (put m r c v)) = length (m_data m)"
  by (simp_all add: put_def)

lemma put_inv [simp]: "matrix_inv (put m r c v) = matrix_inv m"
  by (simp add: matrix_inv_def)

lemma elem_put:
  assumes "matrix_inv m" "r < m_rows m" "c < m_columns m" "c' < m_columns m"
  shows "elem (put m r c v) r' c' = (if r' = r \<and> c' = c then v else elem m r' c')"
  using assms index_bound[of r "m_rows m" c "m_columns m"]
    index_inj[of c "m_columns m" c' r r']
  by (auto simp add: elem_def put_def matrix_inv_def nth_list_update)

lemma put_same: "matrix_inv m \<Longrightarrow> put m r c (elem m r c) = m"
  by (simp add: put_def elem_def)

lemma matrix_ext:
  assumes "matrix_inv a" "matrix_inv b" "m_rows a = m_rows b" "m_columns a = m_columns b"
    and "\<And>r c. r < m_rows a \<Longrightarrow> c < m_columns a \<Longrightarrow> elem a r c = elem b r c"
  shows "a = b"
proof -
  let ?C = "m_columns a"
  have C: "0 < ?C" using assms(1) by (simp add: matrix_inv_def)
  have len: "length (m_data a) = length (m_data b)"
    using assms(1-4) by (simp add: matrix_inv_def)
  have "m_data a ! i = m_data b ! i" if "i < length (m_data a)" for i
  proof -
    have "i < m_rows a * ?C" using that assms(1) by (simp add: matrix_inv_def)
    then have "i div ?C < m_rows a" by (simp add: less_mult_imp_div_less)
    moreover have "i mod ?C < ?C" using C by simp
    ultimately have "elem a (i div ?C) (i mod ?C) = elem b (i div ?C) (i mod ?C)"
      by (rule assms(5))
    then show ?thesis using assms(4) by (simp add: elem_def)
  qed
  then have "m_data a = m_data b" using len by (simp add: list_eq_iff_nth_eq)
  then show ?thesis using assms(3,4) by simp
qed

lemma fill_loop:
  "for_loop 0 n (\<lambda>index d. Inr (vec_set d index fill)) (replicate n z) = Inr (replicate n fill)"
proof -
  let ?I = "\<lambda>k d. d = replicate k fill @ replicate (n - k) z"
  have "\<exists>d. for_loop 0 n (\<lambda>index d. Inr (vec_set d index fill)) (replicate n z) = Inr d \<and> ?I n d"
  proof (rule for_loop_rule[where I = ?I])
    fix k d assume k: "k < n" and d: "?I k d"
    have "n - k = Suc (n - Suc k)" using k by simp
    then have "d[k := fill] = replicate (Suc k) fill @ replicate (n - Suc k) z"
      using d by (simp add: list_update_append replicate_append_same)
    moreover have "k < length d" using d k by simp
    ultimately show "\<exists>d'. Inr (vec_set d k fill) = Inr d' \<and> ?I (Suc k) d'"
      by (simp add: vec_set_def)
  qed simp_all
  then show ?thesis by auto
qed

lemma matrix_new_wrap:
  "1 \<le> R \<Longrightarrow> 1 \<le> C \<Longrightarrow>
   matrix_new R C fill =
     Inr \<lparr>m_rows = R, m_columns = C, m_data = replicate (size_t (R * C)) fill\<rparr>"
  by (simp add: matrix_new_def fill_loop)

lemma matrix_new_eq:
  "1 \<le> R \<Longrightarrow> 1 \<le> C \<Longrightarrow> R * C \<le> SIZE_MAX \<Longrightarrow>
   matrix_new R C fill = Inr \<lparr>m_rows = R, m_columns = C, m_data = replicate (R * C) fill\<rparr>"
  by (simp add: matrix_new_wrap size_t_id)

lemma matrix_new_Inr:
  assumes "matrix_new R C fill = Inr m"
  shows "1 \<le> R \<and> 1 \<le> C \<and>
    m = \<lparr>m_rows = R, m_columns = C, m_data = replicate (size_t (R * C)) fill\<rparr>"
proof (cases "1 \<le> R \<and> 1 \<le> C")
  case True
  then show ?thesis using matrix_new_wrap[of R C fill] assms by auto
next
  case False
  then have "matrix_new R C fill = Inl ERR_INVALID_SIZE" by (auto simp add: matrix_new_def)
  then show ?thesis using assms by simp
qed

definition blank :: "nat \<Rightarrow> nat \<Rightarrow> 'a \<Rightarrow> 'a matrix" where
  "blank R C fill = \<lparr>m_rows = R, m_columns = C, m_data = replicate (R * C) fill\<rparr>"

lemma blank_shape [simp]: "m_rows (blank R C f) = R" "m_columns (blank R C f) = C"
  by (simp_all add: blank_def)

lemma blank_inv [simp]: "matrix_inv (blank R C f) \<longleftrightarrow> 1 \<le> R \<and> 1 \<le> C \<and> R * C \<le> SIZE_MAX"
  by (auto simp add: blank_def matrix_inv_def)

lemma elem_blank [simp]: "r < R \<Longrightarrow> c < C \<Longrightarrow> elem (blank R C f) r c = f"
  using index_bound[of r R c C] by (simp add: blank_def elem_def)

lemma put_put [simp]: "put (put m r c v) r c w = put m r c w"
  by (simp add: put_def)

lemma elem_put_same:
  "matrix_inv m \<Longrightarrow> r < m_rows m \<Longrightarrow> c < m_columns m \<Longrightarrow> elem (put m r c v) r c = v"
  by (simp add: elem_put)

lemma cell_loop:
  assumes inv: "matrix_inv s0"
    and body: "\<And>r c t. r < m_rows s0 \<Longrightarrow> c < m_columns s0 \<Longrightarrow> matrix_inv t \<Longrightarrow>
       m_rows t = m_rows s0 \<Longrightarrow> m_columns t = m_columns s0 \<Longrightarrow> elem t r c = elem s0 r c \<Longrightarrow>
       body r c t = set_at t r c (f r c)"
  shows "\<exists>t. for_loop 0 (m_rows s0) (\<lambda>r u. for_loop 0 (m_columns s0) (\<lambda>c u. body r c u) u) s0 = Inr t
           \<and> matrix_inv t \<and> m_rows t = m_rows s0 \<and> m_columns t = m_columns s0
           \<and> (\<forall>r<m_rows s0. \<forall>c<m_columns s0. elem t r c = f r c)"
proof -
  let ?R = "m_rows s0" and ?C = "m_columns s0"
  let ?P = "\<lambda>r c t. matrix_inv t \<and> m_rows t = ?R \<and> m_columns t = ?C \<and>
     (\<forall>r'<?R. \<forall>c'<?C. elem t r' c' = (if r' < r \<or> (r' = r \<and> c' < c) then f r' c' else elem s0 r' c'))"
  have "\<exists>t. for_loop 0 ?R (\<lambda>r u. for_loop 0 ?C (\<lambda>c u. body r c u) u) s0 = Inr t \<and> ?P ?R 0 t"
  proof (rule for_loop2_rule[where P = ?P])
    show "?P 0 0 s0" using inv by simp
  next
    fix r c t assume r: "r < ?R" and c: "c < ?C" and P: "?P r c t"
    have "elem t r c = elem s0 r c" using P r c by simp
    then have b: "body r c t = set_at t r c (f r c)" using body r c P by simp
    have s: "set_at t r c (f r c) = Inr (put t r c (f r c))"
      using P r c by (simp add: set_at_put)
    have "?P r (Suc c) (put t r c (f r c))"
      using P r c by (auto simp add: elem_put)
    then show "\<exists>t'. body r c t = Inr t' \<and> ?P r (Suc c) t'" using b s by simp
  next
    fix r t assume "r < ?R" and P: "?P r ?C t"
    then show "?P (Suc r) 0 t" by (auto simp add: less_Suc_eq)
  qed
  then show ?thesis by auto
qed

lemma blank_ext:
  assumes "matrix_inv t" "m_rows t = R" "m_columns t = C" "\<forall>r<R. \<forall>c<C. elem t r c = v"
  shows "t = blank R C v"
proof (rule matrix_ext)
  have "1 \<le> R" "1 \<le> C" "R * C \<le> SIZE_MAX" using assms(1-3) by (auto simp add: matrix_inv_def)
  then show "matrix_inv (blank R C v)" by simp
qed (use assms in simp_all)

subsection \<open>The determinant\<close>

text \<open>\<^verbatim>\<open>determinant\<close> calls itself on the minors; that a minor has one row less than
  its matrix is what makes the recursion end.\<close>

lemma bind_result_Inr_iff:
  "bind_result x f = Inr v \<longleftrightarrow> (\<exists>u. x = Inr u \<and> f u = Inr v)"
  by (cases x) simp_all

lemma minor_rows:
  assumes "minor m at_row at_column = Inr sub"
  shows "m_rows sub = m_rows m - 1 \<and> m_columns sub = m_columns m - 1 \<and> 2 \<le> m_rows m \<and> 2 \<le> m_columns m
    \<and> length (m_data sub) = size_t ((m_rows m - 1) * (m_columns m - 1))"
proof -
  let ?P = "\<lambda>(st :: 'a matrix \<times> nat). m_rows (fst st) = m_rows m - 1 \<and> m_columns (fst st) = m_columns m - 1
    \<and> length (m_data (fst st)) = size_t ((m_rows m - 1) * (m_columns m - 1))"
  let ?inner = "\<lambda>row column (result, index).
            if row = at_row then Inr (result, index)
            else if column = at_column then Inr (result, index)
            else bind_result (at m row column) (\<lambda>v.
                   Inr (result\<lparr>m_data := vec_set (m_data result) index v\<rparr>, index + 1))"
  from assms obtain result st where
    new: "matrix_new (m_rows m - 1) (m_columns m - 1) (0::'a) = Inr result"
    and loop: "for_loop 0 (m_rows m) (\<lambda>row state. for_loop 0 (m_columns m) (?inner row) state) (result, 0) = Inr st"
    and sub: "sub = fst st"
    by (auto simp add: minor_def bind_result_Inr_iff split: prod.splits)
  have dims: "1 \<le> m_rows m - 1" "1 \<le> m_columns m - 1" "m_rows result = m_rows m - 1"
    "m_columns result = m_columns m - 1"
    "length (m_data result) = size_t ((m_rows m - 1) * (m_columns m - 1))"
    using matrix_new_Inr[OF new] by auto
  have "?P st"
  proof (rule for_loop_preserves[OF loop, where P = ?P])
    show "?P (result, 0)" using dims by simp
  next
    fix k u u'
    assume u: "?P u" and b: "for_loop 0 (m_columns m) (?inner k) u = Inr u'"
    show "?P u'"
    proof (rule for_loop_preserves[OF b, where P = ?P])
      show "?P u" by fact
    next
      fix j w w' assume "?P w" "?inner k j w = Inr w'"
      then show "?P w'"
        by (auto simp add: bind_result_Inr_iff vec_set_def split: prod.splits if_splits)
    qed
  qed
  moreover have "2 \<le> m_rows m" "2 \<le> m_columns m" using dims(1,2) by linarith+
  ultimately show ?thesis using sub by simp
qed

function determinant :: "'a::{zero,plus,minus,times} matrix \<Rightarrow> error_code + 'a" where
  "determinant m =
     (if m_rows m \<noteq> m_columns m then Inl ERR_NOT_SQUARE
      else if m_rows m = 1 then at m 0 0
      else if m_rows m = 2 then
        bind_result (at m 0 0) (\<lambda>a.
        bind_result (at m 1 1) (\<lambda>d.
        bind_result (at m 1 0) (\<lambda>c.
        bind_result (at m 0 1) (\<lambda>b.
          Inr (a * d - c * b)))))
      else for_loop 0 (m_rows m) (\<lambda>row result.
        bind_result (minor m row 0) (\<lambda>sub_matrix.
        bind_result (at m row 0) (\<lambda>x.
        bind_result (determinant sub_matrix) (\<lambda>sub_det.
          let sub_result = x * sub_det
          in if row mod 2 = 0 then Inr (result + sub_result)
             else Inr (result - sub_result))))) 0)"
  by pat_completeness auto
termination
proof (relation "measure m_rows")
  fix m :: "'a matrix" and row :: nat and result :: 'a and sub_matrix x
  assume "minor m row 0 = Inr sub_matrix"
  then show "(sub_matrix, m) \<in> measure m_rows"
    using minor_rows[of m row 0 sub_matrix] by simp
qed simp

declare determinant.simps [simp del]

subsection \<open>What the elementwise loops compute\<close>

lemma cell_loop_new:
  fixes body :: "nat \<Rightarrow> nat \<Rightarrow> 'a::zero matrix \<Rightarrow> error_code + 'a matrix"
  assumes "1 \<le> R" "1 \<le> C" "R * C \<le> SIZE_MAX"
    and body: "\<And>r c t. r < R \<Longrightarrow> c < C \<Longrightarrow> matrix_inv t \<Longrightarrow>
       m_rows t = R \<Longrightarrow> m_columns t = C \<Longrightarrow> elem t r c = 0 \<Longrightarrow>
       body r c t = set_at t r c (f r c)"
  shows "\<exists>t. bind_result (matrix_new R C 0)
             (\<lambda>result. for_loop 0 R (\<lambda>r u. for_loop 0 C (\<lambda>c u. body r c u) u) result) = Inr t
           \<and> matrix_inv t \<and> m_rows t = R \<and> m_columns t = C
           \<and> (\<forall>r<R. \<forall>c<C. elem t r c = f r c)"
proof -
  let ?s0 = "blank R C (0::'a)"
  have "\<exists>t. for_loop 0 (m_rows ?s0) (\<lambda>r u. for_loop 0 (m_columns ?s0) (\<lambda>c u. body r c u) u) ?s0 = Inr t
           \<and> matrix_inv t \<and> m_rows t = m_rows ?s0 \<and> m_columns t = m_columns ?s0
           \<and> (\<forall>r<m_rows ?s0. \<forall>c<m_columns ?s0. elem t r c = f r c)"
  proof (rule cell_loop)
    show "matrix_inv ?s0" using assms(1-3) by simp
  next
    fix r c t
    assume "r < m_rows ?s0" "c < m_columns ?s0" "matrix_inv t" "m_rows t = m_rows ?s0"
      "m_columns t = m_columns ?s0" "elem t r c = elem ?s0 r c"
    then show "body r c t = set_at t r c (f r c)" using body[of r c t] by simp
  qed
  then show ?thesis using assms(1-3) by (simp add: matrix_new_eq blank_def[symmetric])
qed

lemma scale_result:
  fixes a :: "'a::{zero,plus} matrix"
  assumes "matrix_inv a"
  shows "\<exists>t. scale a s = Inr t \<and> matrix_inv t \<and> m_rows t = m_rows a \<and> m_columns t = m_columns a
           \<and> (\<forall>r<m_rows a. \<forall>c<m_columns a. elem t r c = 0 + s)"
  unfolding scale_def
  by (rule cell_loop_new) (use assms in \<open>simp_all add: matrix_inv_def[of a] at_elem\<close>)

lemma negate_result:
  fixes a :: "'a::{zero,uminus} matrix"
  assumes "matrix_inv a"
  shows "\<exists>t. negate a = Inr t \<and> matrix_inv t \<and> m_rows t = m_rows a \<and> m_columns t = m_columns a
           \<and> (\<forall>r<m_rows a. \<forall>c<m_columns a. elem t r c = - 0)"
  unfolding negate_def
  by (rule cell_loop_new) (use assms in \<open>simp_all add: matrix_inv_def[of a] at_elem\<close>)

lemma add_result:
  fixes a :: "'a::{zero,plus} matrix"
  assumes "matrix_inv a" "matrix_inv b" "m_rows a = m_rows b" "m_columns a = m_columns b"
  shows "\<exists>t. add a b = Inr t \<and> matrix_inv t \<and> m_rows t = m_rows a \<and> m_columns t = m_columns a
           \<and> (\<forall>r<m_rows a. \<forall>c<m_columns a. elem t r c = elem a r c + elem b r c)"
proof -
  have "\<exists>t. bind_result (matrix_new (m_rows a) (m_columns a) 0)
             (\<lambda>result. for_loop 0 (m_rows a) (\<lambda>row result. for_loop 0 (m_columns a) (\<lambda>column result.
                bind_result (at a row column) (\<lambda>x.
                bind_result (at b row column) (\<lambda>y.
                  set_at result row column (x + y)))) result) result) = Inr t
           \<and> matrix_inv t \<and> m_rows t = m_rows a \<and> m_columns t = m_columns a
           \<and> (\<forall>r<m_rows a. \<forall>c<m_columns a. elem t r c = elem a r c + elem b r c)"
    by (rule cell_loop_new) (use assms in \<open>simp_all add: matrix_inv_def[of a] at_elem\<close>)
  then show ?thesis using assms(3,4) by (simp add: add_def)
qed

lemma subtract_result:
  fixes a :: "'a::{zero,minus} matrix"
  assumes "matrix_inv a" "matrix_inv b" "m_rows a = m_rows b" "m_columns a = m_columns b"
  shows "\<exists>t. subtract a b = Inr t \<and> matrix_inv t \<and> m_rows t = m_rows a \<and> m_columns t = m_columns a
           \<and> (\<forall>r<m_rows a. \<forall>c<m_columns a. elem t r c = elem a r c - elem b r c)"
proof -
  have "\<exists>t. bind_result (matrix_new (m_rows a) (m_columns a) 0)
             (\<lambda>result. for_loop 0 (m_rows a) (\<lambda>row result. for_loop 0 (m_columns a) (\<lambda>column result.
                bind_result (at a row column) (\<lambda>x.
                bind_result (at b row column) (\<lambda>y.
                  set_at result row column (x - y)))) result) result) = Inr t
           \<and> matrix_inv t \<and> m_rows t = m_rows a \<and> m_columns t = m_columns a
           \<and> (\<forall>r<m_rows a. \<forall>c<m_columns a. elem t r c = elem a r c - elem b r c)"
    by (rule cell_loop_new) (use assms in \<open>simp_all add: matrix_inv_def[of a] at_elem\<close>)
  then show ?thesis using assms(3,4) by (simp add: subtract_def)
qed

lemma transform_result:
  assumes "matrix_inv a"
  shows "\<exists>t. transform a lambda = Inr t \<and> matrix_inv t \<and> m_rows t = m_rows a \<and> m_columns t = m_columns a
           \<and> (\<forall>r<m_rows a. \<forall>c<m_columns a. elem t r c = lambda r c (elem a r c))"
  unfolding transform_def
  by (rule cell_loop) (use assms in \<open>simp_all add: at_elem\<close>)

lemma dot_loop:
  fixes t :: "'a::{zero,plus,times} matrix"
  assumes t: "matrix_inv t" "r < m_rows t" "c < m_columns t"
    and x: "\<And>k. k < K \<Longrightarrow> at a r k = Inr (x k)"
    and y: "\<And>k. k < K \<Longrightarrow> at b k c = Inr (y k)"
  shows "for_loop 0 K (\<lambda>element result.
           bind_result (at result r c) (\<lambda>acc.
           bind_result (at a r element) (\<lambda>x.
           bind_result (at b element c) (\<lambda>y.
             set_at result r c (acc + x * y))))) t
         = Inr (put t r c (foldl (\<lambda>acc k. acc + x k * y k) (elem t r c) [0..<K]))"
    (is "for_loop 0 K ?body t = _")
proof -
  let ?v = "\<lambda>k. foldl (\<lambda>acc k. acc + x k * y k) (elem t r c) [0..<k]"
  let ?I = "\<lambda>k u. u = put t r c (?v k)"
  have "\<exists>u. for_loop 0 K ?body t = Inr u \<and> ?I K u"
  proof (rule for_loop_rule[where I = ?I])
    show "?I 0 t" using t by (simp add: put_same)
  next
    fix k u assume k: "k < K" and u: "?I k u"
    have inv: "matrix_inv u" "r < m_rows u" "c < m_columns u" using u t by simp_all
    have "elem u r c = ?v k" using u t by (simp add: elem_put_same)
    then have "?body k u = Inr (put u r c (?v k + x k * y k))"
      using inv k by (simp add: at_elem x y set_at_put)
    then show "\<exists>u'. ?body k u = Inr u' \<and> ?I (Suc k) u'" using u by simp
  qed simp
  then show ?thesis by simp
qed

lemma multiply_result:
  fixes a :: "'a::{zero,plus,times} matrix"
  assumes "matrix_inv a" "matrix_inv b" "m_columns a = m_rows b"
    and "m_rows a * m_columns b \<le> SIZE_MAX"
  shows "\<exists>t. multiply a b = Inr t \<and> matrix_inv t \<and> m_rows t = m_rows a \<and> m_columns t = m_columns b
           \<and> (\<forall>r<m_rows a. \<forall>c<m_columns b.
                 elem t r c = foldl (\<lambda>acc k. acc + elem a r k * elem b k c) 0 [0..<m_columns a])"
proof -
  let ?f = "\<lambda>r c. foldl (\<lambda>acc k. acc + elem a r k * elem b k c) 0 [0..<m_columns a]"
  have "\<exists>t. bind_result (matrix_new (m_rows a) (m_columns b) 0)
             (\<lambda>result. for_loop 0 (m_rows a) (\<lambda>row result. for_loop 0 (m_columns b) (\<lambda>column result.
                for_loop 0 (m_columns a) (\<lambda>element result.
                  bind_result (at result row column) (\<lambda>acc.
                  bind_result (at a row element) (\<lambda>x.
                  bind_result (at b element column) (\<lambda>y.
                    set_at result row column (acc + x * y))))) result) result) result) = Inr t
           \<and> matrix_inv t \<and> m_rows t = m_rows a \<and> m_columns t = m_columns b
           \<and> (\<forall>r<m_rows a. \<forall>c<m_columns b. elem t r c = ?f r c)"
  proof (rule cell_loop_new)
    show "1 \<le> m_rows a" "1 \<le> m_columns b" using assms by (simp_all add: matrix_inv_def)
    show "m_rows a * m_columns b \<le> SIZE_MAX" by fact
  next
    fix r c and t :: "'a matrix"
    assume r: "r < m_rows a" and c: "c < m_columns b" and t: "matrix_inv t" "m_rows t = m_rows a"
      "m_columns t = m_columns b" "elem t r c = 0"
    have "for_loop 0 (m_columns a) (\<lambda>element result.
           bind_result (at result r c) (\<lambda>acc.
           bind_result (at a r element) (\<lambda>x.
           bind_result (at b element c) (\<lambda>y.
             set_at result r c (acc + x * y))))) t
         = Inr (put t r c (foldl (\<lambda>acc k. acc + elem a r k * elem b k c) (elem t r c) [0..<m_columns a]))"
      by (rule dot_loop) (use assms r c t in \<open>simp_all add: at_elem\<close>)
    then show "for_loop 0 (m_columns a) (\<lambda>element result.
           bind_result (at result r c) (\<lambda>acc.
           bind_result (at a r element) (\<lambda>x.
           bind_result (at b element c) (\<lambda>y.
             set_at result r c (acc + x * y))))) t = set_at t r c (?f r c)"
      using r c t by (simp add: set_at_put)
  qed
  then show ?thesis using assms(3) by (simp add: multiply_def)
qed

subsection \<open>Row and column extraction, transpose\<close>

lemma matrix_new_blank:
  "1 \<le> R \<Longrightarrow> 1 \<le> C \<Longrightarrow> R * C \<le> SIZE_MAX \<Longrightarrow> matrix_new R C fill = Inr (blank R C fill)"
  by (simp add: matrix_new_eq blank_def)

lemma for_loop_fails:
  assumes "I i s" and "i \<le> j" and "j < n"
    and step: "\<And>k t. i \<le> k \<Longrightarrow> k < j \<Longrightarrow> I k t \<Longrightarrow> \<exists>t'. body k t = Inr t' \<and> I (Suc k) t'"
    and fail: "\<And>t. I j t \<Longrightarrow> body j t = Inl e"
  shows "for_loop i n body s = Inl e"
  using assms(1,2,4)
proof (induction "j - i" arbitrary: i s)
  case 0
  then have "i = j" by simp
  then show ?case using fail[of s] 0 assms(3) by (simp add: for_loop_step)
next
  case (Suc d)
  then have lt: "i < j" by simp
  obtain t' where t': "body i s = Inr t'" "I (Suc i) t'"
    using Suc.prems(3)[of i s] lt Suc.prems(1) by auto
  have "for_loop (Suc i) n body t' = Inl e"
    by (rule Suc.hyps(1)) (use Suc.hyps(2) Suc.prems t' lt in auto)
  then show ?case using lt assms(3) by (simp add: for_loop_step t')
qed

lemma row_vector_result:
  fixes a :: "'a::zero matrix"
  assumes "matrix_inv a" "row < m_rows a"
  shows "\<exists>t. row_vector a row = Inr t \<and> matrix_inv t \<and> m_rows t = 1 \<and> m_columns t = m_columns a
           \<and> (\<forall>c<m_columns a. elem t 0 c = elem a row c)"
proof -
  let ?C = "m_columns a"
  let ?body = "\<lambda>column result. bind_result (at a row column) (\<lambda>v. set_at result 0 column v)"
  let ?I = "\<lambda>k (u :: 'a matrix). matrix_inv u \<and> m_rows u = 1 \<and> m_columns u = ?C \<and>
     (\<forall>c<?C. elem u 0 c = (if c < k then elem a row c else 0))"
  have C: "1 \<le> ?C" "1 * ?C \<le> SIZE_MAX"
    using assms(1) matrix_inv_size(3)[OF assms(1)] by (simp_all add: matrix_inv_def)
  have "\<exists>t. for_loop 0 ?C ?body (blank 1 ?C 0) = Inr t \<and> ?I ?C t"
  proof (rule for_loop_rule[where I = ?I])
    show "?I 0 (blank 1 ?C 0)" using C by simp
  next
    fix k and u :: "'a matrix" assume k: "k < ?C" and I: "?I k u"
    have "?body k u = Inr (put u 0 k (elem a row k))"
      using assms k I by (simp add: at_elem set_at_put)
    moreover have "?I (Suc k) (put u 0 k (elem a row k))"
      using I k by (auto simp add: elem_put less_Suc_eq)
    ultimately show "\<exists>u'. ?body k u = Inr u' \<and> ?I (Suc k) u'" by simp
  qed simp
  then show ?thesis
    using assms(2) C by (auto simp add: row_vector_def matrix_new_blank)
qed

lemma column_vector_result:
  fixes a :: "'a::zero matrix"
  assumes "matrix_inv a" "column < m_columns a" "m_rows a \<le> m_columns a"
  shows "\<exists>t. column_vector a column = Inr t \<and> matrix_inv t \<and> m_rows t = m_columns a \<and> m_columns t = 1
           \<and> (\<forall>r<m_columns a. elem t r 0 = (if r < m_rows a then elem a r column else 0))"
proof -
  let ?C = "m_columns a" and ?R = "m_rows a"
  let ?body = "\<lambda>row result. bind_result (at a row column) (\<lambda>v. set_at result row 0 v)"
  let ?I = "\<lambda>k (u :: 'a matrix). matrix_inv u \<and> m_rows u = ?C \<and> m_columns u = 1 \<and>
     (\<forall>r<?C. elem u r 0 = (if r < k then elem a r column else 0))"
  have C: "1 \<le> ?C" "?C * 1 \<le> SIZE_MAX"
    using assms(1) matrix_inv_size(3)[OF assms(1)] by (simp_all add: matrix_inv_def)
  have "\<exists>t. for_loop 0 ?R ?body (blank ?C 1 0) = Inr t \<and> ?I ?R t"
  proof (rule for_loop_rule[where I = ?I])
    show "?I 0 (blank ?C 1 0)" using C by simp
  next
    fix k and u :: "'a matrix" assume k: "k < ?R" and I: "?I k u"
    have "?body k u = Inr (put u k 0 (elem a k column))"
      using assms k I by (simp add: at_elem set_at_put)
    moreover have "?I (Suc k) (put u k 0 (elem a k column))"
      using I k assms(3) by (auto simp add: elem_put less_Suc_eq)
    ultimately show "\<exists>u'. ?body k u = Inr u' \<and> ?I (Suc k) u'" by simp
  qed simp
  then show ?thesis
    using assms(2) C by (auto simp add: column_vector_def matrix_new_blank)
qed

lemma column_vector_fails:
  fixes a :: "'a::zero matrix"
  assumes "matrix_inv a" "column < m_columns a" "m_columns a < m_rows a"
  shows "column_vector a column = Inl ERR_ROW_RANGE"
proof -
  let ?C = "m_columns a" and ?R = "m_rows a"
  let ?body = "\<lambda>row result. bind_result (at a row column) (\<lambda>v. set_at result row 0 v)"
  let ?I = "\<lambda>k (u :: 'a matrix). matrix_inv u \<and> m_rows u = ?C \<and> m_columns u = 1"
  have C: "1 \<le> ?C" "?C * 1 \<le> SIZE_MAX"
    using assms(1) matrix_inv_size(3)[OF assms(1)] by (simp_all add: matrix_inv_def)
  have "for_loop 0 ?R ?body (blank ?C 1 0) = Inl ERR_ROW_RANGE"
  proof (rule for_loop_fails[where I = ?I and j = ?C])
    show "?I 0 (blank ?C 1 0)" using C by simp
  next
    fix k and u :: "'a matrix" assume k: "k < ?C" and I: "?I k u"
    have "?body k u = Inr (put u k 0 (elem a k column))"
      using assms k I by (simp add: at_elem set_at_put)
    moreover have "?I (Suc k) (put u k 0 (elem a k column))" using I by simp
    ultimately show "\<exists>u'. ?body k u = Inr u' \<and> ?I (Suc k) u'" by simp
  next
    fix u :: "'a matrix" assume I: "?I ?C u"
    have "at a ?C column = Inr (elem a ?C column)" using assms by (simp add: at_elem)
    then show "?body ?C u = Inl ERR_ROW_RANGE" using I by (simp add: set_at_def)
  qed (use assms in simp_all)
  then show ?thesis
    using assms(2) C by (simp add: column_vector_def matrix_new_blank)
qed

lemma transpose_result:
  fixes a :: "'a::zero matrix"
  assumes "matrix_inv a"
  shows "\<exists>t. transpose_matrix a = Inr t \<and> matrix_inv t \<and> m_rows t = m_columns a \<and> m_columns t = m_rows a
           \<and> (\<forall>r<m_rows a. \<forall>c<m_columns a. elem t c r = elem a r c)"
proof -
  let ?C = "m_columns a" and ?R = "m_rows a"
  let ?body = "\<lambda>row column result. bind_result (at a row column) (\<lambda>v. set_at result column row v)"
  let ?P = "\<lambda>r c (t :: 'a matrix). matrix_inv t \<and> m_rows t = ?C \<and> m_columns t = ?R \<and>
     (\<forall>r'<?R. \<forall>c'<?C. elem t c' r' = (if r' < r \<or> (r' = r \<and> c' < c) then elem a r' c' else 0))"
  have RC: "1 \<le> ?R" "1 \<le> ?C" "?C * ?R \<le> SIZE_MAX"
    using assms(1) matrix_inv_size(1)[OF assms(1)] by (simp_all add: matrix_inv_def mult.commute)
  have "\<exists>t. for_loop 0 ?R (\<lambda>r u. for_loop 0 ?C (\<lambda>c u. ?body r c u) u) (blank ?C ?R 0) = Inr t \<and> ?P ?R 0 t"
  proof (rule for_loop2_rule[where P = ?P])
    show "?P 0 0 (blank ?C ?R 0)" using RC by simp
  next
    fix r c and t :: "'a matrix" assume r: "r < ?R" and c: "c < ?C" and P: "?P r c t"
    have "?body r c t = Inr (put t c r (elem a r c))"
      using assms r c P by (simp add: at_elem set_at_put)
    moreover have "?P r (Suc c) (put t c r (elem a r c))"
      using P r c by (auto simp add: elem_put)
    ultimately show "\<exists>t'. ?body r c t = Inr t' \<and> ?P r (Suc c) t'" by simp
  next
    fix r and t :: "'a matrix" assume "r < ?R" and P: "?P r ?C t"
    then show "?P (Suc r) 0 t" by (auto simp add: less_Suc_eq)
  qed
  then show ?thesis
    using RC by (auto simp add: transpose_matrix_def matrix_new_blank)
qed

subsection \<open>The minor\<close>

text \<open>\<open>cells_before C r c\<close> lists, in row-major order, the positions the two loops of
  \<^verbatim>\<open>minor\<close> have visited when they reach \<open>(r, c)\<close>; \<open>kept i j\<close> holds of the positions
  outside row \<open>i\<close> and column \<open>j\<close>.\<close>

definition cells_before :: "nat \<Rightarrow> nat \<Rightarrow> nat \<Rightarrow> (nat \<times> nat) list" where
  "cells_before C r c = concat (map (\<lambda>r'. map (Pair r') [0..<C]) [0..<r]) @ map (Pair r) [0..<c]"

definition kept :: "nat \<Rightarrow> nat \<Rightarrow> nat \<times> nat \<Rightarrow> bool" where
  "kept i j = (\<lambda>(r, c). r \<noteq> i \<and> c \<noteq> j)"

lemma cells_before_0 [simp]: "cells_before C 0 0 = []"
  by (simp add: cells_before_def)

lemma cells_before_Suc: "cells_before C r (Suc c) = cells_before C r c @ [(r, c)]"
  by (simp add: cells_before_def)

lemma cells_before_line: "cells_before C r C = cells_before C (Suc r) 0"
  by (simp add: cells_before_def)

lemma filter_kept_row:
  "filter (kept i j) (map (Pair r) xs) = (if r = i then [] else map (Pair r) (filter (\<lambda>c. c \<noteq> j) xs))"
  by (induction xs) (auto simp add: kept_def)

lemma length_filter_neq: "length (filter (\<lambda>c. c \<noteq> j) [0..<n]) = (if j < n then n - 1 else n)"
  by (induction n) auto

lemma length_kept_rows:
  "length (filter (kept i j) (concat (map (\<lambda>r'. map (Pair r') [0..<C]) [0..<r])))
     = (if i < r then r - 1 else r) * (if j < C then C - 1 else C)"
proof (induction r)
  case 0
  then show ?case by simp
next
  case (Suc r)
  show ?case
  proof (cases "i < r")
    case True
    then obtain q where q: "r = Suc q" by (cases r) simp_all
    then show ?thesis using True Suc by (simp add: filter_kept_row length_filter_neq)
  next
    case False
    then show ?thesis using Suc by (auto simp add: filter_kept_row length_filter_neq)
  qed
qed

lemma length_kept_before:
  assumes "j < C"
  shows "length (filter (kept i j) (cells_before C r c))
     = (if i < r then r - 1 else r) * (C - 1) + (if r = i then 0 else if j < c then c - 1 else c)"
  using assms by (simp add: cells_before_def length_kept_rows filter_kept_row length_filter_neq)

lemma kept_index_bound:
  assumes "r < R" "c < C" "i < R" "j < C" "r \<noteq> i" "c \<noteq> j"
  shows "length (filter (kept i j) (cells_before C r c)) < (R - 1) * (C - 1)"
proof -
  have "(if i < r then r - 1 else r) < R - 1" using assms by auto
  moreover have "(if j < c then c - 1 else c) < C - 1" using assms by auto
  ultimately have "(if i < r then r - 1 else r) * (C - 1) + (if j < c then c - 1 else c) < (R - 1) * (C - 1)"
    by (rule index_bound)
  then show ?thesis using assms by (simp add: length_kept_before)
qed

lemma cells_before_all:
  "cells_before C R 0 = concat (map (\<lambda>r. map (Pair r) [0..<C]) [0..<R])"
  by (simp add: cells_before_def)

lemma minor_size:
  assumes "matrix_inv a"
  shows "(m_rows a - 1) * (m_columns a - 1) \<le> SIZE_MAX"
proof -
  have "(m_rows a - 1) * (m_columns a - 1) \<le> m_rows a * m_columns a"
    by (rule mult_le_mono) simp_all
  then show ?thesis using matrix_inv_size(1)[OF assms] by (rule order_trans)
qed

lemma minor_result:
  fixes a :: "'a::zero matrix"
  assumes "matrix_inv a" "2 \<le> m_rows a" "2 \<le> m_columns a" "i < m_rows a" "j < m_columns a"
  shows "minor a i j = Inr \<lparr>m_rows = m_rows a - 1, m_columns = m_columns a - 1,
           m_data = map (\<lambda>(r, c). elem a r c) (filter (kept i j) (cells_before (m_columns a) (m_rows a) 0))\<rparr>"
proof -
  let ?C = "m_columns a" and ?R = "m_rows a"
  let ?K = "\<lambda>r c. filter (kept i j) (cells_before ?C r c)"
  let ?body = "\<lambda>row column. \<lambda>(result :: 'a matrix, index).
            if row = i then Inr (result, index)
            else if column = j then Inr (result, index)
            else bind_result (at a row column) (\<lambda>v.
                   Inr (result\<lparr>m_data := vec_set (m_data result) index v\<rparr>, index + 1))"
  let ?P = "\<lambda>r c (st :: 'a matrix \<times> nat). m_rows (fst st) = ?R - 1 \<and> m_columns (fst st) = ?C - 1 \<and>
     length (m_data (fst st)) = (?R - 1) * (?C - 1) \<and> snd st = length (?K r c) \<and>
     take (length (?K r c)) (m_data (fst st)) = map (\<lambda>(r, c). elem a r c) (?K r c)"
  have RC: "1 \<le> ?R - 1" "1 \<le> ?C - 1" "(?R - 1) * (?C - 1) \<le> SIZE_MAX"
    using assms(2,3) minor_size[OF assms(1)] by simp_all
  have "\<exists>st. for_loop 0 ?R (\<lambda>r u. for_loop 0 ?C (\<lambda>c u. ?body r c u) u) (blank (?R - 1) (?C - 1) 0, 0) = Inr st
          \<and> ?P ?R 0 st"
  proof (rule for_loop2_rule[where P = ?P])
    show "?P 0 0 (blank (?R - 1) (?C - 1) 0, 0)" by (simp add: blank_def)
  next
    fix r c and st :: "'a matrix \<times> nat" assume r: "r < ?R" and c: "c < ?C" and P: "?P r c st"
    obtain res idx where st: "st = (res, idx)" by (cases st)
    show "\<exists>st'. ?body r c st = Inr st' \<and> ?P r (Suc c) st'"
    proof (cases "r \<noteq> i \<and> c \<noteq> j")
      case False
      then have K: "?K r (Suc c) = ?K r c" by (auto simp add: cells_before_Suc kept_def)
      have "?P r (Suc c) st" unfolding K by (rule P)
      moreover have "?body r c st = Inr st" using False st by auto
      ultimately show ?thesis by blast
    next
      case True
      have idx: "idx < length (m_data res)"
        using kept_index_bound[of r ?R c ?C i j] r c assms(4,5) True P st by simp
      have K: "?K r (Suc c) = ?K r c @ [(r, c)]" using True by (simp add: cells_before_Suc kept_def)
      have b: "?body r c st = Inr (res\<lparr>m_data := (m_data res)[idx := elem a r c]\<rparr>, Suc idx)"
        using True st r c assms(1) idx by (simp add: at_elem vec_set_def)
      have "take (Suc idx) ((m_data res)[idx := elem a r c]) = take idx (m_data res) @ [elem a r c]"
        using idx by (simp add: take_Suc_conv_app_nth)
      then have "?P r (Suc c) (res\<lparr>m_data := (m_data res)[idx := elem a r c]\<rparr>, Suc idx)"
        using P st K by simp
      then show ?thesis using b by simp
    qed
  next
    fix r and st :: "'a matrix \<times> nat" assume "r < ?R" and P: "?P r ?C st"
    then show "?P (Suc r) 0 st" by (simp add: cells_before_line)
  qed
  then obtain res idx where loop: "for_loop 0 ?R (\<lambda>r u. for_loop 0 ?C (\<lambda>c u. ?body r c u) u)
      (blank (?R - 1) (?C - 1) 0, 0) = Inr (res, idx)" and P: "?P ?R 0 (res, idx)"
    by auto
  have len: "length (?K ?R 0) = (?R - 1) * (?C - 1)"
    using assms(4,5) by (simp add: length_kept_before)
  have tk: "take (length (?K ?R 0)) (m_data res) = map (\<lambda>(r, c). elem a r c) (?K ?R 0)"
    using P by (simp only: fst_conv)
  have "length (m_data res) = length (?K ?R 0)" using P len by simp
  then have "take (length (?K ?R 0)) (m_data res) = m_data res" by simp
  then have "m_data res = map (\<lambda>(r, c). elem a r c) (?K ?R 0)" using tk by (rule subst)
  then have "res = \<lparr>m_rows = ?R - 1, m_columns = ?C - 1, m_data = map (\<lambda>(r, c). elem a r c) (?K ?R 0)\<rparr>"
    using P by simp
  then show ?thesis
    using loop RC by (simp add: minor_def matrix_new_blank)
qed

text \<open>At a position outside the matrix the function returns as well. With \<open>at_row = 2\<close> on
  \<open>[[1, 2], [3, 4]]\<close> only column \<open>0\<close> is skipped: \<open>2\<close> is stored in the one slot of the
  result, the store of \<open>4\<close> at index \<open>1\<close> runs past its vector, and the result is \<open>[[2]]\<close>.\<close>

lemma minor_outside_returns:
  "minor \<lparr>m_rows = 2, m_columns = 2, m_data = [1, 2, 3, 4 :: int]\<rparr> 2 0 =
     Inr \<lparr>m_rows = 1, m_columns = 1, m_data = [2]\<rparr>"
  by code_simp

subsection \<open>The cofactor expansion\<close>

lemma minor_inv:
  fixes a :: "'a::zero matrix"
  assumes "matrix_inv a" "2 \<le> m_rows a" "2 \<le> m_columns a" "i < m_rows a" "j < m_columns a"
  shows "\<exists>sub. minor a i j = Inr sub \<and> matrix_inv sub \<and> m_rows sub = m_rows a - 1
           \<and> m_columns sub = m_columns a - 1"
proof -
  have "length (filter (kept i j) (cells_before (m_columns a) (m_rows a) 0))
          = (m_rows a - 1) * (m_columns a - 1)"
    using assms(4,5) by (simp add: length_kept_before)
  moreover have "1 \<le> m_rows a - 1" "1 \<le> m_columns a - 1" using assms(2,3) by linarith+
  moreover have "(m_rows a - 1) * (m_columns a - 1) \<le> SIZE_MAX" by (rule minor_size) fact
  ultimately show ?thesis
    using minor_result[OF assms] by (simp add: matrix_inv_def)
qed

lemma determinant_1:
  "m_rows a = 1 \<Longrightarrow> m_columns a = 1 \<Longrightarrow> determinant a = at a 0 0"
  by (simp add: determinant.simps)

lemma determinant_2:
  "m_rows a = 2 \<Longrightarrow> m_columns a = 2 \<Longrightarrow> determinant a =
        bind_result (at a 0 0) (\<lambda>p.
        bind_result (at a 1 1) (\<lambda>s.
        bind_result (at a 1 0) (\<lambda>r.
        bind_result (at a 0 1) (\<lambda>q.
          Inr (p * s - r * q)))))"
  by (simp add: determinant.simps)

lemma determinant_expand:
  fixes a :: "'a::{zero,plus,minus,times} matrix"
  assumes a: "matrix_inv a" "m_rows a = m_columns a" "2 < m_rows a"
    and sub: "\<And>row. row < m_rows a \<Longrightarrow> minor a row 0 = Inr (sub row)"
    and d: "\<And>row. row < m_rows a \<Longrightarrow> determinant (sub row) = Inr (d row)"
  shows "determinant a = Inr (foldl (\<lambda>acc row.
           if row mod 2 = 0 then acc + elem a row 0 * d row else acc - elem a row 0 * d row)
           0 [0..<m_rows a])"
proof -
  let ?step = "\<lambda>acc row. if row mod 2 = 0 then acc + elem a row 0 * d row else acc - elem a row 0 * d row"
  let ?body = "\<lambda>row result.
        bind_result (minor a row 0) (\<lambda>sub_matrix.
        bind_result (at a row 0) (\<lambda>x.
        bind_result (determinant sub_matrix) (\<lambda>sub_det.
          let sub_result = x * sub_det
          in if row mod 2 = 0 then Inr (result + sub_result)
             else Inr (result - sub_result))))"
  let ?I = "\<lambda>k result. result = foldl ?step 0 [0..<k]"
  have "\<exists>t. for_loop 0 (m_rows a) ?body 0 = Inr t \<and> ?I (m_rows a) t"
  proof (rule for_loop_rule[where I = ?I])
    fix k result assume k: "k < m_rows a" and I: "?I k result"
    have "at a k 0 = Inr (elem a k 0)" using a k by (simp add: at_elem)
    then have "?body k result = Inr (?step result k)"
      using sub[OF k] d[OF k] by (simp add: Let_def)
    then show "\<exists>t'. ?body k result = Inr t' \<and> ?I (Suc k) t'" using I by simp
  qed simp_all
  moreover have "determinant a = for_loop 0 (m_rows a) ?body 0"
    using a(2,3) by (subst determinant.simps) simp
  ultimately show ?thesis by simp
qed

lemma determinant_total:
  fixes a :: "'a::{zero,plus,minus,times} matrix"
  assumes "matrix_inv a" "m_rows a = m_columns a"
  shows "\<exists>v. determinant a = Inr v"
  using assms
proof (induction "m_rows a" arbitrary: a rule: less_induct)
  case less
  have pos: "1 \<le> m_rows a" using less.prems by (simp add: matrix_inv_def)
  consider "m_rows a = 1" | "m_rows a = 2" | "2 < m_rows a" using pos by linarith
  then show ?case
  proof cases
    case 1
    then show ?thesis using less.prems by (simp add: determinant_1 at_elem)
  next
    case 2
    then show ?thesis using less.prems by (simp add: determinant_2 at_elem)
  next
    case 3
    have "\<exists>sub. minor a row 0 = Inr sub \<and> matrix_inv sub \<and> m_rows sub = m_rows a - 1
           \<and> m_columns sub = m_columns a - 1" if "row < m_rows a" for row
      by (rule minor_inv) (use 3 less.prems that in simp_all)
    then obtain sub where sub: "\<And>row. row < m_rows a \<Longrightarrow> minor a row 0 = Inr (sub row) \<and>
        matrix_inv (sub row) \<and> m_rows (sub row) = m_rows a - 1 \<and> m_columns (sub row) = m_columns a - 1"
      by metis
    have "\<exists>v. determinant (sub row) = Inr v" if "row < m_rows a" for row
      by (rule less.hyps) (use sub[OF that] 3 less.prems in simp_all)
    then obtain d where d: "\<And>row. row < m_rows a \<Longrightarrow> determinant (sub row) = Inr (d row)"
      by metis
    show ?thesis
      using determinant_expand[OF less.prems 3, of sub d] sub d by simp
  qed
qed

lemma kept_comprehension:
  "map (\<lambda>(r, c). f r c) (filter (kept i j) (concat (map (\<lambda>r. map (Pair r) ys) xs)))
     = [f r c. r \<leftarrow> xs, c \<leftarrow> ys, r \<noteq> i \<and> c \<noteq> j]"
proof (induction xs)
  case Nil
  then show ?case by simp
next
  case (Cons x xs)
  have "map (\<lambda>(r, c). f r c) (filter (kept i j) (map (Pair x) ys))
          = concat (map (\<lambda>c. if x \<noteq> i \<and> c \<noteq> j then [f x c] else []) ys)"
    by (induction ys) (auto simp add: kept_def)
  then show ?case using Cons by simp
qed

subsection \<open>Results that satisfy the invariant\<close>

lemma set_at_inv:
  assumes "matrix_inv a" "set_at a i j v = Inr m"
  shows "matrix_inv m"
proof (cases "i < m_rows a \<and> j < m_columns a")
  case True
  then show ?thesis using assms set_at_put[of a i j v] by auto
next
  case False
  then show ?thesis using assms(2) by (auto simp add: set_at_def split: if_splits)
qed

lemma assign_inv:
  assumes "matrix_inv a" "assign a xs = Inr m"
  shows "matrix_inv m \<and> length xs = m_rows a * m_columns a \<and> m_data m = xs"
  using assms size_t_id[OF matrix_inv_size(1)[OF assms(1)]]
  by (auto simp add: assign_def matrix_inv_def split: if_splits)

lemma row_vector_inv:
  fixes a :: "'a::zero matrix"
  assumes "matrix_inv a" "row_vector a i = Inr m"
  shows "matrix_inv m"
proof (cases "i < m_rows a")
  case True
  then show ?thesis using row_vector_result[OF assms(1) True] assms(2) by auto
next
  case False
  then show ?thesis using assms(2) by (simp add: row_vector_def)
qed

lemma column_vector_inv:
  fixes a :: "'a::zero matrix"
  assumes "matrix_inv a" "column_vector a j = Inr m"
  shows "matrix_inv m"
proof (cases "j < m_columns a")
  case True
  show ?thesis
  proof (cases "m_rows a \<le> m_columns a")
    case le: True
    then show ?thesis using column_vector_result[OF assms(1) True le] assms(2) by auto
  next
    case False
    then show ?thesis using column_vector_fails[OF assms(1) True] assms(2) by simp
  qed
next
  case False
  then show ?thesis using assms(2) by (simp add: column_vector_def)
qed

lemma add_inv:
  fixes a :: "'a::{zero,plus} matrix"
  assumes "matrix_inv a" "matrix_inv b" "add a b = Inr m"
  shows "matrix_inv m"
proof (cases "m_rows a = m_rows b \<and> m_columns a = m_columns b")
  case True
  then show ?thesis using add_result[OF assms(1,2)] assms(3) by auto
next
  case False
  then show ?thesis using assms(3) by (auto simp add: add_def)
qed

lemma subtract_inv:
  fixes a :: "'a::{zero,minus} matrix"
  assumes "matrix_inv a" "matrix_inv b" "subtract a b = Inr m"
  shows "matrix_inv m"
proof (cases "m_rows a = m_rows b \<and> m_columns a = m_columns b")
  case True
  then show ?thesis using subtract_result[OF assms(1,2)] assms(3) by auto
next
  case False
  then show ?thesis using assms(3) by (auto simp add: subtract_def)
qed

lemma multiply_inv:
  fixes a :: "'a::{zero,plus,times} matrix"
  assumes "matrix_inv a" "matrix_inv b" "m_rows a * m_columns b \<le> SIZE_MAX"
    and "multiply a b = Inr m"
  shows "matrix_inv m"
proof (cases "m_columns a = m_rows b")
  case True
  then show ?thesis using multiply_result[OF assms(1,2) _ assms(3)] assms(4) by auto
next
  case False
  then show ?thesis using assms(4) by (simp add: multiply_def)
qed

lemma minor_Inr_inv:
  fixes a :: "'a::zero matrix"
  assumes "matrix_inv a" "i < m_rows a" "j < m_columns a" "minor a i j = Inr m"
  shows "matrix_inv m"
proof -
  have "2 \<le> m_rows a" "2 \<le> m_columns a" using minor_rows[OF assms(4)] by simp_all
  then show ?thesis using minor_inv[OF assms(1) _ _ assms(2,3)] assms(4) by auto
qed

lemma bind_result_Inl_iff:
  "bind_result x f = Inl e \<longleftrightarrow> x = Inl e \<or> (\<exists>v. x = Inr v \<and> f v = Inl e)"
  by (cases x) simp_all

lemma for_loop_Inl:
  assumes "for_loop i n body s = Inl e"
  shows "\<exists>k t. body k t = Inl e"
  using assms
proof (induction "n - i" arbitrary: i s)
  case 0
  then show ?case by (simp add: for_loop.simps)
next
  case (Suc d)
  then have lt: "i < n" by simp
  show ?case
  proof (cases "body i s")
    case (Inl e')
    then show ?thesis using Suc.prems lt by (auto simp add: for_loop_step)
  next
    case (Inr s')
    then have "for_loop (Suc i) n body s' = Inl e" using Suc.prems lt by (simp add: for_loop_step)
    then show ?thesis by (rule Suc.hyps(1)[rotated]) (use Suc.hyps(2) in simp)
  qed
qed

lemma multiply_not_incompatible:
  fixes a :: "'a::{zero,plus,times} matrix"
  assumes "m_columns a = m_rows b"
  shows "multiply a b \<noteq> Inl ERR_INCOMPATIBLE"
proof
  let ?cell = "\<lambda>row column element (result :: 'a matrix).
              bind_result (at result row column) (\<lambda>acc.
              bind_result (at a row element) (\<lambda>x.
              bind_result (at b element column) (\<lambda>y.
                set_at result row column (acc + x * y))))"
  assume "multiply a b = Inl ERR_INCOMPATIBLE"
  then have "bind_result (matrix_new (m_rows a) (m_columns b) 0) (\<lambda>result.
        for_loop 0 (m_rows a) (\<lambda>row result.
          for_loop 0 (m_columns b) (\<lambda>column result.
            for_loop 0 (m_columns a) (?cell row column) result) result) result)
      = Inl ERR_INCOMPATIBLE"
    using assms by (simp add: multiply_def)
  moreover have "matrix_new (m_rows a) (m_columns b) (0::'a) \<noteq> Inl ERR_INCOMPATIBLE"
    by (simp add: matrix_new_def fill_loop)
  ultimately obtain result where "for_loop 0 (m_rows a) (\<lambda>row result.
          for_loop 0 (m_columns b) (\<lambda>column result.
            for_loop 0 (m_columns a) (?cell row column) result) result) result
      = Inl ERR_INCOMPATIBLE"
    by (auto simp add: bind_result_Inl_iff)
  then have "\<exists>row t. for_loop 0 (m_columns b) (\<lambda>column result.
            for_loop 0 (m_columns a) (?cell row column) result) t = Inl ERR_INCOMPATIBLE"
    by (rule for_loop_Inl)
  then obtain row t where "for_loop 0 (m_columns b) (\<lambda>column result.
            for_loop 0 (m_columns a) (?cell row column) result) t = Inl ERR_INCOMPATIBLE"
    by blast
  then have "\<exists>column u. for_loop 0 (m_columns a) (?cell row column) u = Inl ERR_INCOMPATIBLE"
    by (rule for_loop_Inl)
  then obtain column u where "for_loop 0 (m_columns a) (?cell row column) u = Inl ERR_INCOMPATIBLE"
    by blast
  then have "\<exists>element w. ?cell row column element w = Inl ERR_INCOMPATIBLE"
    by (rule for_loop_Inl)
  then obtain element w where "?cell row column element w = Inl ERR_INCOMPATIBLE"
    by blast
  then show False
    by (auto simp add: bind_result_Inl_iff at_def set_at_def vec_get_def split: if_splits)
qed

section \<open>Unary negation\<close>

text \<open>
  C1. The claim: unary negation returns a matrix of the shape of \<open>a\<close> whose every element is
  the negation of the corresponding element of \<open>a\<close>. The loop of \<^verbatim>\<open>operator-()\<close> negates
  the elements of the freshly constructed \<^verbatim>\<open>result\<close>, not those of \<^verbatim>\<open>*this\<close>, so the
  elements of \<open>a\<close> never reach the result: on \<open>[[1, 2], [3, 4]]\<close> the function returns
  \<open>[[0, 0], [0, 0]]\<close> where the claim has \<open>[[-1, -2], [-3, -4]]\<close>.
\<close>

theorem negate_discards_operand:
  "negate \<lparr>m_rows = 2, m_columns = 2, m_data = [1, 2, 3, 4 :: int]\<rparr> =
     Inr \<lparr>m_rows = 2, m_columns = 2, m_data = [0, 0, 0, 0]\<rparr>"
  by code_simp

section \<open>The determinant\<close>

text \<open>
  C2. \<^verbatim>\<open>determinant()\<close> fails with \<open>ERR_NOT_SQUARE\<close> exactly when \<open>rows \<noteq> columns\<close>. On a
  square matrix it returns the only element for \<open>1 \<times> 1\<close>, \<open>a(0,0) * a(1,1) - a(1,0) * a(0,1)\<close>
  for \<open>2 \<times> 2\<close>, and for \<open>n > 2\<close> the total, accumulated from \<open>T()\<close> over the rows in
  increasing order, of \<open>a(row, 0) * determinant(minor(a, row, 0))\<close>, added for an even row and
  subtracted for an odd one; every minor and every determinant of a minor is returned
  without failure. On \<open>[[1, 0, 2], [-1, 5, 0], [0, 3, 1]]\<close> the result is \<open>-1\<close>.
\<close>

theorem determinant_cofactor_expansion:
  fixes a :: "'a::{zero,plus,minus,times} matrix"
  assumes "matrix_inv a"
  shows "(determinant a = Inl ERR_NOT_SQUARE \<longleftrightarrow> m_rows a \<noteq> m_columns a) \<and>
    (m_rows a = 1 \<and> m_columns a = 1 \<longrightarrow> determinant a = Inr (elem a 0 0)) \<and>
    (m_rows a = 2 \<and> m_columns a = 2 \<longrightarrow>
       determinant a = Inr (elem a 0 0 * elem a 1 1 - elem a 1 0 * elem a 0 1)) \<and>
    (m_rows a = m_columns a \<and> 2 < m_rows a \<longrightarrow>
       (\<exists>sub d.
          (\<forall>row<m_rows a. minor a row 0 = Inr (sub row) \<and> determinant (sub row) = Inr (d row)) \<and>
          determinant a = Inr (foldl (\<lambda>acc row.
              if even row then acc + elem a row 0 * d row else acc - elem a row 0 * d row)
            0 [0..<m_rows a]))) \<and>
    (\<forall>r<m_rows a. \<forall>c<m_columns a. at a r c = Inr (elem a r c)) \<and>
    determinant \<lparr>m_rows = 3, m_columns = 3, m_data = [1, 0, 2, - 1, 5, 0, 0, 3, 1 :: int]\<rparr> = Inr (- 1)"
proof (intro conjI impI)
  show "determinant a = Inl ERR_NOT_SQUARE \<longleftrightarrow> m_rows a \<noteq> m_columns a"
  proof (cases "m_rows a = m_columns a")
    case True
    then show ?thesis using determinant_total[OF assms] by auto
  next
    case False
    then show ?thesis by (simp add: determinant.simps)
  qed
next
  assume "m_rows a = 1 \<and> m_columns a = 1"
  then show "determinant a = Inr (elem a 0 0)" using assms by (simp add: determinant_1 at_elem)
next
  assume "m_rows a = 2 \<and> m_columns a = 2"
  then show "determinant a = Inr (elem a 0 0 * elem a 1 1 - elem a 1 0 * elem a 0 1)"
    using assms by (simp add: determinant_2 at_elem)
next
  assume h: "m_rows a = m_columns a \<and> 2 < m_rows a"
  have "\<exists>s. minor a row 0 = Inr s \<and> matrix_inv s \<and> m_rows s = m_rows a - 1
           \<and> m_columns s = m_columns a - 1" if "row < m_rows a" for row
    by (rule minor_inv) (use h assms that in simp_all)
  then obtain sub where sub: "\<And>row. row < m_rows a \<Longrightarrow> minor a row 0 = Inr (sub row) \<and>
      matrix_inv (sub row) \<and> m_rows (sub row) = m_rows a - 1 \<and> m_columns (sub row) = m_columns a - 1"
    by metis
  have "\<exists>v. determinant (sub row) = Inr v" if "row < m_rows a" for row
    by (rule determinant_total) (use sub[OF that] h in simp_all)
  then obtain d where d: "\<And>row. row < m_rows a \<Longrightarrow> determinant (sub row) = Inr (d row)"
    by metis
  have "determinant a = Inr (foldl (\<lambda>acc row.
           if row mod 2 = 0 then acc + elem a row 0 * d row else acc - elem a row 0 * d row)
           0 [0..<m_rows a])"
    by (rule determinant_expand) (use assms h sub d in simp_all)
  then have "determinant a = Inr (foldl (\<lambda>acc row.
              if even row then acc + elem a row 0 * d row else acc - elem a row 0 * d row)
            0 [0..<m_rows a])"
    by (simp add: even_iff_mod_2_eq_zero)
  then show "\<exists>sub d.
          (\<forall>row<m_rows a. minor a row 0 = Inr (sub row) \<and> determinant (sub row) = Inr (d row)) \<and>
          determinant a = Inr (foldl (\<lambda>acc row.
              if even row then acc + elem a row 0 * d row else acc - elem a row 0 * d row)
            0 [0..<m_rows a])"
    using sub d by blast
next
  show "\<forall>r<m_rows a. \<forall>c<m_columns a. at a r c = Inr (elem a r c)"
    using assms by (simp add: at_elem)
next
  show "determinant \<lparr>m_rows = 3, m_columns = 3, m_data = [1, 0, 2, - 1, 5, 0, 0, 3, 1 :: int]\<rparr> = Inr (- 1)"
    by code_simp
qed

theorem determinant_cofactor_expansion_witness:
  "matrix_inv \<lparr>m_rows = 1, m_columns = 1, m_data = [5 :: int]\<rparr> \<and>
   determinant \<lparr>m_rows = 1, m_columns = 1, m_data = [5 :: int]\<rparr> = Inr 5 \<and>
   matrix_inv \<lparr>m_rows = 2, m_columns = 2, m_data = [1, 2, 3, 4 :: int]\<rparr> \<and>
   determinant \<lparr>m_rows = 2, m_columns = 2, m_data = [1, 2, 3, 4 :: int]\<rparr> = Inr (- 2) \<and>
   matrix_inv \<lparr>m_rows = 2, m_columns = 3, m_data = [1, 2, 3, 4, 5, 6 :: int]\<rparr> \<and>
   determinant \<lparr>m_rows = 2, m_columns = 3, m_data = [1, 2, 3, 4, 5, 6 :: int]\<rparr> = Inl ERR_NOT_SQUARE \<and>
   matrix_inv \<lparr>m_rows = 3, m_columns = 3, m_data = [1, 0, 2, - 1, 5, 0, 0, 3, 1 :: int]\<rparr> \<and>
   (\<exists>sub d.
      (\<forall>row<3. minor \<lparr>m_rows = 3, m_columns = 3, m_data = [1, 0, 2, - 1, 5, 0, 0, 3, 1 :: int]\<rparr> row 0
                  = Inr (sub row) \<and> determinant (sub row) = Inr (d row)) \<and>
      determinant \<lparr>m_rows = 3, m_columns = 3, m_data = [1, 0, 2, - 1, 5, 0, 0, 3, 1 :: int]\<rparr>
        = Inr (0 + 1 * d 0 - (- 1) * d 1 + 0 * d 2))"
proof -
  let ?a = "\<lparr>m_rows = 1, m_columns = 1, m_data = [5 :: int]\<rparr>"
  let ?b = "\<lparr>m_rows = 2, m_columns = 2, m_data = [1, 2, 3, 4 :: int]\<rparr>"
  let ?c = "\<lparr>m_rows = 2, m_columns = 3, m_data = [1, 2, 3, 4, 5, 6 :: int]\<rparr>"
  let ?e = "\<lparr>m_rows = 3, m_columns = 3, m_data = [1, 0, 2, - 1, 5, 0, 0, 3, 1 :: int]\<rparr>"
  have ha: "matrix_inv ?a" and hb: "matrix_inv ?b" and hc: "matrix_inv ?c" and he: "matrix_inv ?e"
    by code_simp+
  have ea: "elem ?a 0 0 = 5" by (simp add: elem_def)
  have eb: "elem ?b 0 0 * elem ?b 1 1 - elem ?b 1 0 * elem ?b 0 1 = - 2" by (simp add: elem_def)
  have da: "determinant ?a = Inr 5"
    using determinant_cofactor_expansion [OF ha] ea by simp
  have db: "determinant ?b = Inr (- 2)"
    using determinant_cofactor_expansion [OF hb] eb by simp
  have dc: "determinant ?c = Inl ERR_NOT_SQUARE"
    using determinant_cofactor_expansion [OF hc] by simp
  have f: "foldl (\<lambda>acc row.
              if even row then acc + elem ?e row 0 * d row else acc - elem ?e row 0 * d row)
            0 [0..<m_rows ?e] = 0 + 1 * d 0 - (- 1) * d 1 + 0 * d 2" for d :: "nat \<Rightarrow> int"
    by (simp add: elem_def upt_rec)
  have sq: "m_rows ?e = m_columns ?e \<and> 2 < m_rows ?e" by simp
  have "\<exists>sub d.
          (\<forall>row<m_rows ?e. minor ?e row 0 = Inr (sub row) \<and> determinant (sub row) = Inr (d row)) \<and>
          determinant ?e = Inr (foldl (\<lambda>acc row.
              if even row then acc + elem ?e row 0 * d row else acc - elem ?e row 0 * d row)
            0 [0..<m_rows ?e])"
    using sq determinant_cofactor_expansion [OF he] by blast
  then have de: "\<exists>sub d.
      (\<forall>row<3. minor ?e row 0 = Inr (sub row) \<and> determinant (sub row) = Inr (d row)) \<and>
      determinant ?e = Inr (0 + 1 * d 0 - (- 1) * d 1 + 0 * d 2)"
    unfolding f by simp
  show ?thesis using ha hb hc he da db dc de by blast
qed

section \<open>Scalar multiplication\<close>

text \<open>
  C3. For a matrix \<open>a\<close> of shape \<open>(r, c)\<close> and a scalar \<open>s\<close>, \<^verbatim>\<open>a * s\<close> does not fail and
  returns a matrix of shape \<open>(r, c)\<close> whose every element is \<open>T() + s\<close>, whatever the
  elements of \<open>a\<close> are. The operand is not written to: the function has no store into it,
  and the model returns the new matrix only.
\<close>

theorem scale_constant_fill:
  fixes a :: "'a::{zero,plus} matrix"
  assumes "matrix_inv a"
  shows "scale a s = Inr \<lparr>m_rows = m_rows a, m_columns = m_columns a,
           m_data = replicate (m_rows a * m_columns a) (0 + s)\<rparr>"
proof -
  obtain t where t: "scale a s = Inr t" "matrix_inv t" "m_rows t = m_rows a"
    "m_columns t = m_columns a" "\<forall>r<m_rows a. \<forall>c<m_columns a. elem t r c = 0 + s"
    using scale_result[OF assms, of s] by auto
  have "t = blank (m_rows a) (m_columns a) (0 + s)" using t(2-5) by (rule blank_ext)
  then show ?thesis using t(1) by (simp add: blank_def)
qed

theorem scale_constant_fill_witness:
  "matrix_inv \<lparr>m_rows = 2, m_columns = 2, m_data = [1, 2, 3, 4 :: int]\<rparr> \<and>
   scale \<lparr>m_rows = 2, m_columns = 2, m_data = [1, 2, 3, 4 :: int]\<rparr> 5 =
     Inr \<lparr>m_rows = 2, m_columns = 2, m_data = [5, 5, 5, 5]\<rparr>"
proof -
  have h: "matrix_inv \<lparr>m_rows = 2, m_columns = 2, m_data = [1, 2, 3, 4 :: int]\<rparr>"
    by code_simp
  have "replicate (2 * 2) (0 + 5 :: int) = [5, 5, 5, 5]" by (simp add: numeral_eq_Suc)
  then show ?thesis using h scale_constant_fill [OF h, of 5] by simp
qed

section \<open>Column extraction\<close>

text \<open>
  C4, as amended. For a matrix \<open>a\<close>, \<^verbatim>\<open>column_vector(c)\<close> fails with \<open>ERR_COL_RANGE\<close>
  exactly when \<open>c \<ge> a.columns\<close>. For \<open>c < a.columns\<close> and \<open>a.rows \<le> a.columns\<close> it returns
  a matrix of shape \<open>(a.columns, 1)\<close>, not \<open>(a.rows, 1)\<close>, in which \<open>result(row, 0)\<close> is
  \<open>a(row, c)\<close> for every \<open>row\<close> in \<open>[0, a.rows)\<close>.
\<close>

theorem column_vector_shape:
  fixes a :: "'a::zero matrix"
  assumes "matrix_inv a"
  shows "(column_vector a c = Inl ERR_COL_RANGE \<longleftrightarrow> m_columns a \<le> c) \<and>
    (c < m_columns a \<and> m_rows a \<le> m_columns a \<longrightarrow>
      (\<exists>res. column_vector a c = Inr res \<and> m_rows res = m_columns a \<and> m_columns res = 1 \<and>
         (\<forall>row<m_rows a. at res row 0 = Inr (elem a row c) \<and> at a row c = Inr (elem a row c))))"
proof (intro conjI impI)
  show "column_vector a c = Inl ERR_COL_RANGE \<longleftrightarrow> m_columns a \<le> c"
  proof (cases "c < m_columns a")
    case False
    then show ?thesis by (simp add: column_vector_def)
  next
    case True
    show ?thesis
    proof (cases "m_rows a \<le> m_columns a")
      case le: True
      then show ?thesis using column_vector_result[OF assms True le] True by auto
    next
      case False
      then show ?thesis using column_vector_fails[OF assms True] True by simp
    qed
  qed
next
  assume h: "c < m_columns a \<and> m_rows a \<le> m_columns a"
  then obtain t where t: "column_vector a c = Inr t" "matrix_inv t" "m_rows t = m_columns a"
    "m_columns t = 1" "\<forall>r<m_columns a. elem t r 0 = (if r < m_rows a then elem a r c else 0)"
    using column_vector_result[OF assms, of c] by auto
  have "at t row 0 = Inr (elem a row c) \<and> at a row c = Inr (elem a row c)" if "row < m_rows a" for row
    using that h t assms by (simp add: at_elem)
  then show "\<exists>res. column_vector a c = Inr res \<and> m_rows res = m_columns a \<and> m_columns res = 1 \<and>
         (\<forall>row<m_rows a. at res row 0 = Inr (elem a row c) \<and> at a row c = Inr (elem a row c))"
    using t by auto
qed

theorem column_vector_shape_witness:
  "matrix_inv \<lparr>m_rows = 1, m_columns = 2, m_data = [7, 8 :: int]\<rparr> \<and>
   (1::nat) < 2 \<and> (1::nat) \<le> 2 \<and>
   column_vector \<lparr>m_rows = 1, m_columns = 2, m_data = [7, 8 :: int]\<rparr> 1 \<noteq> Inl ERR_COL_RANGE \<and>
   column_vector \<lparr>m_rows = 1, m_columns = 2, m_data = [7, 8 :: int]\<rparr> 2 = Inl ERR_COL_RANGE \<and>
   (\<exists>res. column_vector \<lparr>m_rows = 1, m_columns = 2, m_data = [7, 8 :: int]\<rparr> 1 = Inr res \<and>
      m_rows res = 2 \<and> m_columns res = 1 \<and> at res 0 0 = Inr 8)"
proof -
  let ?a = "\<lparr>m_rows = 1, m_columns = 2, m_data = [7, 8 :: int]\<rparr>"
  have h: "matrix_inv ?a" by code_simp
  have e: "elem ?a 0 1 = 8" by (simp add: elem_def)
  show ?thesis
    using h e column_vector_shape [OF h, of 1] column_vector_shape [OF h, of 2] by auto
qed

text \<open>
  C4 as it is stated has no restriction on the shape: it lets the copy of \<open>a.rows\<close> elements
  into the \<open>(a.columns, 1)\<close> result succeed for every \<open>c < a.columns\<close>. On a matrix with two
  rows and one column the second store is out of the result's row range and the call fails.
\<close>

theorem column_vector_tall_counterexample:
  "column_vector \<lparr>m_rows = 2, m_columns = 1, m_data = [1, 2 :: int]\<rparr> 0 = Inl ERR_ROW_RANGE"
  by code_simp

text \<open>
  C5. For a matrix \<open>a\<close> with more rows than columns and an index \<open>c < a.columns\<close>,
  \<^verbatim>\<open>column_vector(c)\<close> fails with \<open>ERR_ROW_RANGE\<close>: the store \<^verbatim>\<open>result(row, 0)\<close> at
  \<open>row = a.columns\<close> is outside the \<open>(a.columns, 1)\<close> result. For a matrix with fewer rows
  than columns the call succeeds, and the entries of the result at the rows from \<open>a.rows\<close> to
  \<open>a.columns - 1\<close> are the default value \<open>T()\<close>.
\<close>

theorem column_vector_rectangular:
  fixes a :: "'a::zero matrix"
  assumes "matrix_inv a" "c < m_columns a"
  shows "(m_columns a < m_rows a \<longrightarrow> column_vector a c = Inl ERR_ROW_RANGE) \<and>
    (m_rows a < m_columns a \<longrightarrow>
      (\<exists>res. column_vector a c = Inr res \<and> m_rows res = m_columns a \<and> m_columns res = 1 \<and>
         (\<forall>row. m_rows a \<le> row \<and> row < m_columns a \<longrightarrow> at res row 0 = Inr 0)))"
proof (intro conjI impI)
  assume "m_columns a < m_rows a"
  then show "column_vector a c = Inl ERR_ROW_RANGE" using column_vector_fails[OF assms] by simp
next
  assume h: "m_rows a < m_columns a"
  then obtain t where t: "column_vector a c = Inr t" "matrix_inv t" "m_rows t = m_columns a"
    "m_columns t = 1" "\<forall>r<m_columns a. elem t r 0 = (if r < m_rows a then elem a r c else 0)"
    using column_vector_result[OF assms] by auto
  have "at t row 0 = Inr 0" if "m_rows a \<le> row \<and> row < m_columns a" for row
    using that t by (simp add: at_elem)
  then show "\<exists>res. column_vector a c = Inr res \<and> m_rows res = m_columns a \<and> m_columns res = 1 \<and>
         (\<forall>row. m_rows a \<le> row \<and> row < m_columns a \<longrightarrow> at res row 0 = Inr 0)"
    using t by auto
qed

theorem column_vector_rectangular_witness:
  "matrix_inv \<lparr>m_rows = 3, m_columns = 2, m_data = [1, 2, 3, 4, 5, 6 :: int]\<rparr> \<and>
   column_vector \<lparr>m_rows = 3, m_columns = 2, m_data = [1, 2, 3, 4, 5, 6 :: int]\<rparr> 1 = Inl ERR_ROW_RANGE \<and>
   matrix_inv \<lparr>m_rows = 1, m_columns = 3, m_data = [7, 8, 9 :: int]\<rparr> \<and>
   (\<exists>res. column_vector \<lparr>m_rows = 1, m_columns = 3, m_data = [7, 8, 9 :: int]\<rparr> 2 = Inr res \<and>
      m_rows res = 3 \<and> m_columns res = 1 \<and> at res 1 0 = Inr 0 \<and> at res 2 0 = Inr 0)"
proof -
  let ?a = "\<lparr>m_rows = 3, m_columns = 2, m_data = [1, 2, 3, 4, 5, 6 :: int]\<rparr>"
  let ?b = "\<lparr>m_rows = 1, m_columns = 3, m_data = [7, 8, 9 :: int]\<rparr>"
  have ha: "matrix_inv ?a" and hb: "matrix_inv ?b" by code_simp+
  have ca: "(1::nat) < m_columns ?a" and cb: "(2::nat) < m_columns ?b" by simp_all
  show ?thesis
    using ha hb column_vector_rectangular [OF ha ca] column_vector_rectangular [OF hb cb]
    by auto
qed

section \<open>The matrix product\<close>

text \<open>
  C6, as amended. For matrices \<open>a\<close> and \<open>b\<close> with \<open>a.columns = b.rows\<close> whose product has an
  element count \<open>a.rows * b.columns\<close> that does not wrap around in \<^verbatim>\<open>size_t\<close>, the product
  \<^verbatim>\<open>a * b\<close> returns a matrix of shape \<open>(a.rows, b.columns)\<close> whose element at
  \<open>(row, col)\<close> is the sum of \<open>a(row, k) * b(k, col)\<close> over \<open>k\<close> in \<open>[0, a.columns)\<close>,
  accumulated in increasing \<open>k\<close> from \<open>T()\<close>: a left fold, as no law of \<open>+\<close> is assumed.
\<close>

theorem multiply_dot_products:
  fixes a :: "'a::{zero,plus,times} matrix"
  assumes "matrix_inv a" "matrix_inv b" "m_columns a = m_rows b"
    and "m_rows a * m_columns b \<le> SIZE_MAX"
  shows "\<exists>res. multiply a b = Inr res \<and> m_rows res = m_rows a \<and> m_columns res = m_columns b \<and>
    (\<forall>row<m_rows a. \<forall>col<m_columns b.
       at res row col = Inr (foldl (\<lambda>acc k. acc + elem a row k * elem b k col) 0 [0..<m_columns a])
       \<and> (\<forall>k<m_columns a. at a row k = Inr (elem a row k) \<and> at b k col = Inr (elem b k col)))"
proof -
  obtain t where t: "multiply a b = Inr t" "matrix_inv t" "m_rows t = m_rows a"
    "m_columns t = m_columns b"
    "\<forall>r<m_rows a. \<forall>c<m_columns b.
       elem t r c = foldl (\<lambda>acc k. acc + elem a r k * elem b k c) 0 [0..<m_columns a]"
    using multiply_result[OF assms] by auto
  have "at t row col = Inr (foldl (\<lambda>acc k. acc + elem a row k * elem b k col) 0 [0..<m_columns a])"
    if "row < m_rows a" "col < m_columns b" for row col
    using that t by (simp add: at_elem)
  moreover have "at a row k = Inr (elem a row k) \<and> at b k col = Inr (elem b k col)"
    if "row < m_rows a" "col < m_columns b" "k < m_columns a" for row col k
    using that assms by (simp add: at_elem)
  ultimately show ?thesis using t(1,3,4) by auto
qed

theorem multiply_dot_products_witness:
  "matrix_inv \<lparr>m_rows = 2, m_columns = 3, m_data = [1, 2, 3, 4, 5, 6 :: int]\<rparr> \<and>
   matrix_inv \<lparr>m_rows = 3, m_columns = 2, m_data = [7, 8, 9, 10, 11, 12 :: int]\<rparr> \<and>
   (2 :: nat) * 2 \<le> SIZE_MAX \<and>
   (\<exists>res. multiply \<lparr>m_rows = 2, m_columns = 3, m_data = [1, 2, 3, 4, 5, 6 :: int]\<rparr>
                    \<lparr>m_rows = 3, m_columns = 2, m_data = [7, 8, 9, 10, 11, 12 :: int]\<rparr> = Inr res \<and>
      m_rows res = 2 \<and> m_columns res = 2 \<and> at res 1 0 = Inr (0 + 4 * 7 + 5 * 9 + 6 * 11))"
proof -
  let ?a = "\<lparr>m_rows = 2, m_columns = 3, m_data = [1, 2, 3, 4, 5, 6 :: int]\<rparr>"
  let ?b = "\<lparr>m_rows = 3, m_columns = 2, m_data = [7, 8, 9, 10, 11, 12 :: int]\<rparr>"
  have ha: "matrix_inv ?a" and hb: "matrix_inv ?b" by code_simp+
  have hc: "m_columns ?a = m_rows ?b" by simp
  have hs: "m_rows ?a * m_columns ?b \<le> SIZE_MAX" by (simp add: SIZE_MAX_def size_modulus_def)
  have f: "foldl (\<lambda>acc k. acc + elem ?a 1 k * elem ?b k 0) 0 [0..<m_columns ?a] = 0 + 4 * 7 + 5 * 9 + 6 * 11"
    by (simp add: elem_def upt_rec)
  obtain res where res: "multiply ?a ?b = Inr res" "m_rows res = m_rows ?a" "m_columns res = m_columns ?b"
    "\<forall>row<m_rows ?a. \<forall>col<m_columns ?b.
       at res row col = Inr (foldl (\<lambda>acc k. acc + elem ?a row k * elem ?b k col) 0 [0..<m_columns ?a])
       \<and> (\<forall>k<m_columns ?a. at ?a row k = Inr (elem ?a row k) \<and> at ?b k col = Inr (elem ?b k col))"
    using multiply_dot_products [OF ha hb hc hs] by blast
  have "at res 1 0 = Inr (foldl (\<lambda>acc k. acc + elem ?a 1 k * elem ?b k 0) 0 [0..<m_columns ?a])"
    using res(4) by simp
  then have "at res 1 0 = Inr (0 + 4 * 7 + 5 * 9 + 6 * 11)" using f by simp
  moreover have "(2 :: nat) * 2 \<le> SIZE_MAX" using hs by simp
  ultimately show ?thesis using ha hb res(1-3) by auto
qed

text \<open>
  C6 as it is stated has no bound on the sizes. A column of \<open>2 ^ 32\<close> elements times a row
  of \<open>2 ^ 32\<close> elements has \<open>2 ^ 64\<close> elements: the count wraps around to \<open>0\<close>, the result is
  constructed with an empty vector, and the first \<^verbatim>\<open>result(row, column)\<close> passes both range
  checks and reads beyond the vector. No product is returned.
\<close>

theorem multiply_wraps_counterexample:
  "matrix_inv \<lparr>m_rows = 4294967296, m_columns = 1, m_data = replicate 4294967296 (1 :: int)\<rparr> \<and>
   matrix_inv \<lparr>m_rows = 1, m_columns = 4294967296, m_data = replicate 4294967296 (1 :: int)\<rparr> \<and>
   multiply \<lparr>m_rows = 4294967296, m_columns = 1, m_data = replicate 4294967296 (1 :: int)\<rparr>
            \<lparr>m_rows = 1, m_columns = 4294967296, m_data = replicate 4294967296 (1 :: int)\<rparr>
     = Inl UNDEFINED_READ"
proof -
  let ?a = "\<lparr>m_rows = 4294967296, m_columns = 1, m_data = replicate 4294967296 (1 :: int)\<rparr>"
  let ?b = "\<lparr>m_rows = 1, m_columns = 4294967296, m_data = replicate 4294967296 (1 :: int)\<rparr>"
  let ?r = "\<lparr>m_rows = 4294967296, m_columns = 4294967296, m_data = [] :: int list\<rparr>"
  have ha: "matrix_inv ?a" and hb: "matrix_inv ?b"
    by (simp_all add: matrix_inv_def SIZE_MAX_def size_modulus_def)
  have "size_t (4294967296 * 4294967296) = 0" by (simp add: size_t_def size_modulus_def)
  then have new: "matrix_new 4294967296 4294967296 (0 :: int) = Inr ?r"
    by (simp add: matrix_new_wrap)
  have rd: "at ?r 0 0 = Inl UNDEFINED_READ" by (simp add: at_def vec_get_def size_t_def)
  have "multiply ?a ?b = Inl UNDEFINED_READ"
    by (simp add: multiply_def new for_loop_step rd)
  then show ?thesis using ha hb by simp
qed

section \<open>The minor\<close>

text \<open>
  C7. For a matrix \<open>a\<close> with at least two rows and two columns and a position
  \<open>(at_row, at_column)\<close> inside it, \<^verbatim>\<open>minor\<close> returns a matrix of shape
  \<open>(rows - 1, columns - 1)\<close> whose data are the elements of \<open>a\<close> at the positions outside row
  \<open>at_row\<close> and column \<open>at_column\<close>, each once, in the row-major order of \<open>a\<close>; no position
  of row \<open>at_row\<close> or of column \<open>at_column\<close> contributes an element.
\<close>

theorem minor_removes_row_and_column:
  fixes a :: "'a::zero matrix"
  assumes "matrix_inv a" "2 \<le> m_rows a" "2 \<le> m_columns a"
    and "at_row < m_rows a" "at_column < m_columns a"
  shows "minor a at_row at_column =
      Inr \<lparr>m_rows = m_rows a - 1, m_columns = m_columns a - 1,
           m_data = [elem a r c. r \<leftarrow> [0..<m_rows a], c \<leftarrow> [0..<m_columns a],
                       r \<noteq> at_row \<and> c \<noteq> at_column]\<rparr> \<and>
    length [elem a r c. r \<leftarrow> [0..<m_rows a], c \<leftarrow> [0..<m_columns a],
              r \<noteq> at_row \<and> c \<noteq> at_column] = (m_rows a - 1) * (m_columns a - 1) \<and>
    (\<forall>r<m_rows a. \<forall>c<m_columns a. at a r c = Inr (elem a r c))"
proof -
  let ?L = "[elem a r c. r \<leftarrow> [0..<m_rows a], c \<leftarrow> [0..<m_columns a], r \<noteq> at_row \<and> c \<noteq> at_column]"
  have L: "map (\<lambda>(r, c). elem a r c)
             (filter (kept at_row at_column) (cells_before (m_columns a) (m_rows a) 0)) = ?L"
    unfolding cells_before_all by (rule kept_comprehension)
  have m: "minor a at_row at_column =
      Inr \<lparr>m_rows = m_rows a - 1, m_columns = m_columns a - 1, m_data = ?L\<rparr>"
    using minor_result[OF assms] unfolding L .
  have "length ?L = (m_rows a - 1) * (m_columns a - 1)"
    using minor_rows[OF m] size_t_id[OF minor_size[OF assms(1)]] by simp
  moreover have "\<forall>r<m_rows a. \<forall>c<m_columns a. at a r c = Inr (elem a r c)"
    using assms(1) by (simp add: at_elem)
  ultimately show ?thesis using m by blast
qed

theorem minor_removes_row_and_column_witness:
  "matrix_inv \<lparr>m_rows = 3, m_columns = 3, m_data = [1, 2, 3, 4, 5, 6, 7, 8, 9 :: int]\<rparr> \<and>
   minor \<lparr>m_rows = 3, m_columns = 3, m_data = [1, 2, 3, 4, 5, 6, 7, 8, 9 :: int]\<rparr> 1 0 =
     Inr \<lparr>m_rows = 2, m_columns = 2, m_data = [2, 3, 8, 9]\<rparr>"
proof -
  let ?a = "\<lparr>m_rows = 3, m_columns = 3, m_data = [1, 2, 3, 4, 5, 6, 7, 8, 9 :: int]\<rparr>"
  have ha: "matrix_inv ?a" by code_simp
  have d: "(2::nat) \<le> m_rows ?a" "(2::nat) \<le> m_columns ?a" "(1::nat) < m_rows ?a" "(0::nat) < m_columns ?a"
    by simp_all
  have L: "[elem ?a r c. r \<leftarrow> [0..<m_rows ?a], c \<leftarrow> [0..<m_columns ?a], r \<noteq> 1 \<and> c \<noteq> 0] = [2, 3, 8, 9]"
    by (simp add: elem_def upt_rec)
  show ?thesis
    using ha minor_removes_row_and_column [OF ha d] unfolding L by simp
qed

section \<open>Dimension checks of the sum and the product\<close>

text \<open>
  C8. \<^verbatim>\<open>a + b\<close> fails with \<open>ERR_INCOMPATIBLE\<close> exactly when the row counts or the column
  counts of \<open>a\<close> and \<open>b\<close> differ; otherwise it returns the matrix of the same shape with
  \<open>result(r, c) = a(r, c) + b(r, c)\<close>. The product \<^verbatim>\<open>a * b\<close> fails with
  \<open>ERR_INCOMPATIBLE\<close> exactly when \<open>a.columns \<noteq> b.rows\<close>. Neither function stores into an
  operand; the model returns the new matrix only.
\<close>

theorem add_and_multiply_dimension_checks:
  fixes a :: "'a::{zero,plus,times} matrix"
  assumes "matrix_inv a" "matrix_inv b"
  shows "(add a b = Inl ERR_INCOMPATIBLE \<longleftrightarrow> m_rows a \<noteq> m_rows b \<or> m_columns a \<noteq> m_columns b) \<and>
    (m_rows a = m_rows b \<and> m_columns a = m_columns b \<longrightarrow>
      (\<exists>res. add a b = Inr res \<and> m_rows res = m_rows a \<and> m_columns res = m_columns a \<and>
         (\<forall>r<m_rows a. \<forall>c<m_columns a.
            at res r c = Inr (elem a r c + elem b r c) \<and>
            at a r c = Inr (elem a r c) \<and> at b r c = Inr (elem b r c)))) \<and>
    (multiply a b = Inl ERR_INCOMPATIBLE \<longleftrightarrow> m_columns a \<noteq> m_rows b)"
proof (intro conjI impI)
  show "add a b = Inl ERR_INCOMPATIBLE \<longleftrightarrow> m_rows a \<noteq> m_rows b \<or> m_columns a \<noteq> m_columns b"
  proof (cases "m_rows a = m_rows b \<and> m_columns a = m_columns b")
    case True
    then show ?thesis using add_result[OF assms] by auto
  next
    case False
    then show ?thesis by (auto simp add: add_def)
  qed
next
  assume h: "m_rows a = m_rows b \<and> m_columns a = m_columns b"
  then obtain t where t: "add a b = Inr t" "matrix_inv t" "m_rows t = m_rows a"
    "m_columns t = m_columns a"
    "\<forall>r<m_rows a. \<forall>c<m_columns a. elem t r c = elem a r c + elem b r c"
    using add_result[OF assms] by auto
  have "at t r c = Inr (elem a r c + elem b r c) \<and>
            at a r c = Inr (elem a r c) \<and> at b r c = Inr (elem b r c)"
    if "r < m_rows a" "c < m_columns a" for r c
    using that t assms h by (simp add: at_elem)
  then show "\<exists>res. add a b = Inr res \<and> m_rows res = m_rows a \<and> m_columns res = m_columns a \<and>
         (\<forall>r<m_rows a. \<forall>c<m_columns a.
            at res r c = Inr (elem a r c + elem b r c) \<and>
            at a r c = Inr (elem a r c) \<and> at b r c = Inr (elem b r c))"
    using t(1,3,4) by auto
next
  show "multiply a b = Inl ERR_INCOMPATIBLE \<longleftrightarrow> m_columns a \<noteq> m_rows b"
  proof (cases "m_columns a = m_rows b")
    case True
    then show ?thesis using multiply_not_incompatible[of a b] by simp
  next
    case False
    then show ?thesis by (simp add: multiply_def)
  qed
qed

theorem add_and_multiply_dimension_checks_witness:
  "matrix_inv \<lparr>m_rows = 2, m_columns = 3, m_data = [1, 2, 3, 4, 5, 6 :: int]\<rparr> \<and>
   matrix_inv \<lparr>m_rows = 3, m_columns = 2, m_data = [1, 2, 3, 4, 5, 6 :: int]\<rparr> \<and>
   matrix_inv \<lparr>m_rows = 2, m_columns = 3, m_data = [10, 20, 30, 40, 50, 60 :: int]\<rparr> \<and>
   matrix_inv \<lparr>m_rows = 4, m_columns = 2, m_data = [1, 2, 3, 4, 5, 6, 7, 8 :: int]\<rparr> \<and>
   add \<lparr>m_rows = 2, m_columns = 3, m_data = [1, 2, 3, 4, 5, 6 :: int]\<rparr>
       \<lparr>m_rows = 3, m_columns = 2, m_data = [1, 2, 3, 4, 5, 6 :: int]\<rparr> = Inl ERR_INCOMPATIBLE \<and>
   multiply \<lparr>m_rows = 2, m_columns = 3, m_data = [1, 2, 3, 4, 5, 6 :: int]\<rparr>
       \<lparr>m_rows = 4, m_columns = 2, m_data = [1, 2, 3, 4, 5, 6, 7, 8 :: int]\<rparr> = Inl ERR_INCOMPATIBLE \<and>
   multiply \<lparr>m_rows = 2, m_columns = 3, m_data = [1, 2, 3, 4, 5, 6 :: int]\<rparr>
       \<lparr>m_rows = 3, m_columns = 2, m_data = [1, 2, 3, 4, 5, 6 :: int]\<rparr> \<noteq> Inl ERR_INCOMPATIBLE \<and>
   (\<exists>res. add \<lparr>m_rows = 2, m_columns = 3, m_data = [1, 2, 3, 4, 5, 6 :: int]\<rparr>
       \<lparr>m_rows = 2, m_columns = 3, m_data = [10, 20, 30, 40, 50, 60 :: int]\<rparr> = Inr res \<and>
       m_rows res = 2 \<and> m_columns res = 3 \<and> at res 1 2 = Inr 66)"
proof -
  let ?a = "\<lparr>m_rows = 2, m_columns = 3, m_data = [1, 2, 3, 4, 5, 6 :: int]\<rparr>"
  let ?b = "\<lparr>m_rows = 3, m_columns = 2, m_data = [1, 2, 3, 4, 5, 6 :: int]\<rparr>"
  let ?c = "\<lparr>m_rows = 2, m_columns = 3, m_data = [10, 20, 30, 40, 50, 60 :: int]\<rparr>"
  let ?d = "\<lparr>m_rows = 4, m_columns = 2, m_data = [1, 2, 3, 4, 5, 6, 7, 8 :: int]\<rparr>"
  have ha: "matrix_inv ?a" and hb: "matrix_inv ?b" and hc: "matrix_inv ?c" and hd: "matrix_inv ?d"
    by code_simp+
  have e: "elem ?a 1 2 + elem ?c 1 2 = 66" by (simp add: elem_def)
  show ?thesis
    using ha hb hc hd e
      add_and_multiply_dimension_checks [OF ha hb]
      add_and_multiply_dimension_checks [OF ha hc]
      add_and_multiply_dimension_checks [OF ha hd]
    by auto
qed

section \<open>Transpose\<close>

text \<open>
  C9. For a matrix \<open>a\<close>, \<^verbatim>\<open>transpose()\<close> returns a matrix of shape
  \<open>(a.columns, a.rows)\<close> with \<open>result(c, r) = a(r, c)\<close> at every position of \<open>a\<close>, and the
  transpose of that result is \<open>a\<close> again, in shape and in every element.
\<close>

theorem transpose_involution:
  fixes a :: "'a::zero matrix"
  assumes "matrix_inv a"
  shows "\<exists>t. transpose_matrix a = Inr t \<and> m_rows t = m_columns a \<and> m_columns t = m_rows a \<and>
    (\<forall>r<m_rows a. \<forall>c<m_columns a. at t c r = Inr (elem a r c) \<and> at a r c = Inr (elem a r c)) \<and>
    transpose_matrix t = Inr a"
proof -
  obtain t where t: "transpose_matrix a = Inr t" "matrix_inv t" "m_rows t = m_columns a"
    "m_columns t = m_rows a" "\<forall>r<m_rows a. \<forall>c<m_columns a. elem t c r = elem a r c"
    using transpose_result[OF assms] by auto
  obtain u where u: "transpose_matrix t = Inr u" "matrix_inv u" "m_rows u = m_columns t"
    "m_columns u = m_rows t" "\<forall>r<m_rows t. \<forall>c<m_columns t. elem u c r = elem t r c"
    using transpose_result[OF t(2)] by auto
  have "u = a"
    by (rule matrix_ext) (use u t assms in simp_all)
  moreover have "at t c r = Inr (elem a r c) \<and> at a r c = Inr (elem a r c)"
    if "r < m_rows a" "c < m_columns a" for r c
    using that t assms by (simp add: at_elem)
  ultimately show ?thesis using t(1,3,4) u(1) by auto
qed

theorem transpose_involution_witness:
  "matrix_inv \<lparr>m_rows = 2, m_columns = 3, m_data = [1, 2, 3, 4, 5, 6 :: int]\<rparr> \<and>
   (\<exists>t. transpose_matrix \<lparr>m_rows = 2, m_columns = 3, m_data = [1, 2, 3, 4, 5, 6 :: int]\<rparr> = Inr t \<and>
      m_rows t = 3 \<and> m_columns t = 2 \<and> at t 2 1 = Inr 6 \<and>
      transpose_matrix t = Inr \<lparr>m_rows = 2, m_columns = 3, m_data = [1, 2, 3, 4, 5, 6 :: int]\<rparr>)"
proof -
  let ?a = "\<lparr>m_rows = 2, m_columns = 3, m_data = [1, 2, 3, 4, 5, 6 :: int]\<rparr>"
  have ha: "matrix_inv ?a" by code_simp
  have e: "elem ?a 1 2 = 6" by (simp add: elem_def)
  show ?thesis
    using ha e transpose_involution [OF ha] by auto
qed

section \<open>The class invariant\<close>

text \<open>
  C10, as amended. A matrix returned by the constructor for sizes whose product
  \<open>rows * columns\<close> does not wrap around in \<^verbatim>\<open>size_t\<close> satisfies \<open>rows \<ge> 1\<close>,
  \<open>columns \<ge> 1\<close> and \<open>length data = rows * columns\<close>, and the constructor fails with
  \<open>ERR_INVALID_SIZE\<close> when \<open>rows < 1\<close> or \<open>columns < 1\<close>. On matrices that satisfy the
  invariant, every matrix returned by a store through \<^verbatim>\<open>operator()\<close>, by the flat-list
  assignment, by \<^verbatim>\<open>row_vector\<close>, \<^verbatim>\<open>column_vector\<close>, \<^verbatim>\<open>transform\<close>, the sum, the
  difference, the negation, the scalar product and \<^verbatim>\<open>transpose\<close> satisfies it again; so
  does the matrix product when \<open>a.rows * b.columns\<close> does not wrap around, and
  \<^verbatim>\<open>minor\<close> when \<open>at_row < rows\<close> and \<open>at_column < columns\<close>. The flat-list assignment
  replaces the data only when the list has \<open>rows * columns\<close> elements and fails with
  \<open>ERR_INCOMPATIBLE\<close> otherwise. Reads (\<^verbatim>\<open>operator()\<close> as a value, \<^verbatim>\<open>determinant\<close>) return
  an element and store nothing; the minors \<^verbatim>\<open>determinant\<close> builds are taken inside the
  matrix and are covered by the clause for \<^verbatim>\<open>minor\<close>. Nothing is said of \<^verbatim>\<open>minor\<close> at a
  position outside the matrix, where its last stores run past the vector of the result.
\<close>

theorem class_invariant_preserved:
  fixes a b :: "'a::{zero,plus,minus,uminus,times} matrix" and fill v s :: 'a and xs ys :: "'a list"
  assumes "matrix_inv a" "matrix_inv b"
  shows "(nr < 1 \<or> nc < 1 \<longrightarrow> matrix_new nr nc fill = Inl ERR_INVALID_SIZE) \<and>
    (nr' * nc' \<le> SIZE_MAX \<longrightarrow>
       (\<forall>m. matrix_new nr' nc' fill = Inr m \<longrightarrow>
          matrix_inv m \<and> m_rows m = nr' \<and> m_columns m = nc' \<and> 1 \<le> nr' \<and> 1 \<le> nc')) \<and>
    (\<forall>m. set_at a i j v = Inr m \<longrightarrow> matrix_inv m) \<and>
    (length ys \<noteq> m_rows a * m_columns a \<longrightarrow> assign a ys = Inl ERR_INCOMPATIBLE) \<and>
    (\<forall>m. assign a xs = Inr m \<longrightarrow>
       matrix_inv m \<and> length xs = m_rows a * m_columns a \<and> m_data m = xs) \<and>
    (\<forall>m. row_vector a i = Inr m \<longrightarrow> matrix_inv m) \<and>
    (\<forall>m. column_vector a j = Inr m \<longrightarrow> matrix_inv m) \<and>
    (\<forall>m. transform a lambda = Inr m \<longrightarrow> matrix_inv m) \<and>
    (\<forall>m. add a b = Inr m \<longrightarrow> matrix_inv m) \<and>
    (\<forall>m. subtract a b = Inr m \<longrightarrow> matrix_inv m) \<and>
    (\<forall>m. negate a = Inr m \<longrightarrow> matrix_inv m) \<and>
    (\<forall>m. scale a s = Inr m \<longrightarrow> matrix_inv m) \<and>
    (m_rows a * m_columns b \<le> SIZE_MAX \<longrightarrow> (\<forall>m. multiply a b = Inr m \<longrightarrow> matrix_inv m)) \<and>
    (\<forall>m. transpose_matrix a = Inr m \<longrightarrow> matrix_inv m) \<and>
    (i < m_rows a \<and> j < m_columns a \<longrightarrow> (\<forall>m. minor a i j = Inr m \<longrightarrow> matrix_inv m))"
proof (intro conjI allI impI)
  assume "nr < 1 \<or> nc < 1"
  then show "matrix_new nr nc fill = Inl ERR_INVALID_SIZE" by (simp add: matrix_new_def)
next
  fix m assume le: "nr' * nc' \<le> SIZE_MAX" and n: "matrix_new nr' nc' fill = Inr m"
  show "matrix_inv m" "m_rows m = nr'" "m_columns m = nc'" "1 \<le> nr'" "1 \<le> nc'"
    using matrix_new_Inr[OF n] le size_t_id[OF le] by (simp_all add: matrix_inv_def)
next
  fix m assume "set_at a i j v = Inr m"
  then show "matrix_inv m" using assms(1) by (rule set_at_inv[rotated])
next
  assume "length ys \<noteq> m_rows a * m_columns a"
  then show "assign a ys = Inl ERR_INCOMPATIBLE"
    using size_t_id[OF matrix_inv_size(1)[OF assms(1)]] by (auto simp add: assign_def)
next
  fix m assume m: "assign a xs = Inr m"
  show "matrix_inv m" "length xs = m_rows a * m_columns a" "m_data m = xs"
    using assign_inv[OF assms(1) m] by simp_all
next
  fix m assume "row_vector a i = Inr m"
  then show "matrix_inv m" using assms(1) by (rule row_vector_inv[rotated])
next
  fix m assume "column_vector a j = Inr m"
  then show "matrix_inv m" using assms(1) by (rule column_vector_inv[rotated])
next
  fix m assume "transform a lambda = Inr m"
  then show "matrix_inv m" using transform_result[OF assms(1), of lambda] by auto
next
  fix m assume "add a b = Inr m"
  then show "matrix_inv m" using assms by (rule add_inv[rotated 2])
next
  fix m assume "subtract a b = Inr m"
  then show "matrix_inv m" using assms by (rule subtract_inv[rotated 2])
next
  fix m assume "negate a = Inr m"
  then show "matrix_inv m" using negate_result[OF assms(1)] by auto
next
  fix m assume "scale a s = Inr m"
  then show "matrix_inv m" using scale_result[OF assms(1), of s] by auto
next
  fix m assume "m_rows a * m_columns b \<le> SIZE_MAX" and "multiply a b = Inr m"
  then show "matrix_inv m" using multiply_inv[OF assms] by blast
next
  fix m assume "transpose_matrix a = Inr m"
  then show "matrix_inv m" using transpose_result[OF assms(1)] by auto
next
  fix m assume "i < m_rows a \<and> j < m_columns a" and "minor a i j = Inr m"
  then show "matrix_inv m" using minor_Inr_inv[OF assms(1)] by blast
qed

theorem class_invariant_preserved_witness:
  "matrix_inv \<lparr>m_rows = 2, m_columns = 2, m_data = [1, 2, 3, 4 :: int]\<rparr> \<and>
   matrix_inv \<lparr>m_rows = 2, m_columns = 2, m_data = [5, 6, 7, 8 :: int]\<rparr> \<and>
   matrix_new 0 3 (0 :: int) = Inl ERR_INVALID_SIZE \<and>
   (2 :: nat) * 3 \<le> SIZE_MAX \<and>
   (\<exists>m. matrix_new 2 3 (7 :: int) = Inr m \<and> matrix_inv m \<and> m_rows m = 2 \<and> m_columns m = 3) \<and>
   (\<exists>m. set_at \<lparr>m_rows = 2, m_columns = 2, m_data = [1, 2, 3, 4 :: int]\<rparr> 1 0 9 = Inr m \<and> matrix_inv m) \<and>
   assign \<lparr>m_rows = 2, m_columns = 2, m_data = [1, 2, 3, 4 :: int]\<rparr> [1, 2, 3] = Inl ERR_INCOMPATIBLE \<and>
   (\<exists>m. assign \<lparr>m_rows = 2, m_columns = 2, m_data = [1, 2, 3, 4 :: int]\<rparr> [9, 8, 7, 6] = Inr m \<and>
        matrix_inv m \<and> m_data m = [9, 8, 7, 6]) \<and>
   (\<exists>m. row_vector \<lparr>m_rows = 2, m_columns = 2, m_data = [1, 2, 3, 4 :: int]\<rparr> 1 = Inr m \<and> matrix_inv m) \<and>
   (\<exists>m. column_vector \<lparr>m_rows = 2, m_columns = 2, m_data = [1, 2, 3, 4 :: int]\<rparr> 0 = Inr m \<and> matrix_inv m) \<and>
   (\<exists>m. transform \<lparr>m_rows = 2, m_columns = 2, m_data = [1, 2, 3, 4 :: int]\<rparr> (\<lambda>r c v. v + 1) = Inr m
        \<and> matrix_inv m) \<and>
   (\<exists>m. add \<lparr>m_rows = 2, m_columns = 2, m_data = [1, 2, 3, 4 :: int]\<rparr>
            \<lparr>m_rows = 2, m_columns = 2, m_data = [5, 6, 7, 8 :: int]\<rparr> = Inr m \<and> matrix_inv m) \<and>
   (\<exists>m. subtract \<lparr>m_rows = 2, m_columns = 2, m_data = [1, 2, 3, 4 :: int]\<rparr>
            \<lparr>m_rows = 2, m_columns = 2, m_data = [5, 6, 7, 8 :: int]\<rparr> = Inr m \<and> matrix_inv m) \<and>
   (\<exists>m. negate \<lparr>m_rows = 2, m_columns = 2, m_data = [1, 2, 3, 4 :: int]\<rparr> = Inr m \<and> matrix_inv m) \<and>
   (\<exists>m. scale \<lparr>m_rows = 2, m_columns = 2, m_data = [1, 2, 3, 4 :: int]\<rparr> 3 = Inr m \<and> matrix_inv m) \<and>
   (\<exists>m. multiply \<lparr>m_rows = 2, m_columns = 2, m_data = [1, 2, 3, 4 :: int]\<rparr>
            \<lparr>m_rows = 2, m_columns = 2, m_data = [5, 6, 7, 8 :: int]\<rparr> = Inr m \<and> matrix_inv m) \<and>
   (\<exists>m. transpose_matrix \<lparr>m_rows = 2, m_columns = 2, m_data = [1, 2, 3, 4 :: int]\<rparr> = Inr m \<and> matrix_inv m) \<and>
   (\<exists>m. minor \<lparr>m_rows = 2, m_columns = 2, m_data = [1, 2, 3, 4 :: int]\<rparr> 1 0 = Inr m \<and> matrix_inv m)"
proof -
  let ?a = "\<lparr>m_rows = 2, m_columns = 2, m_data = [1, 2, 3, 4 :: int]\<rparr>"
  let ?b = "\<lparr>m_rows = 2, m_columns = 2, m_data = [5, 6, 7, 8 :: int]\<rparr>"
  have ha: "matrix_inv ?a" and hb: "matrix_inv ?b" by code_simp+
  note inv = class_invariant_preserved [OF ha hb, where nr = 0 and nc = 3 and fill = 0
      and nr' = 2 and nc' = 3 and i = 1 and j = 0 and v = 9 and ys = "[1, 2, 3]"
      and xs = "[9, 8, 7, 6]" and lambda = "\<lambda>r c v. v + 1" and s = 3]
  have e1: "matrix_new 2 3 (7 :: int) = Inr \<lparr>m_rows = 2, m_columns = 3, m_data = [7, 7, 7, 7, 7, 7]\<rparr>"
    by code_simp
  have e2: "set_at ?a 1 0 9 = Inr \<lparr>m_rows = 2, m_columns = 2, m_data = [1, 2, 9, 4]\<rparr>"
    by code_simp
  have e3: "assign ?a [9, 8, 7, 6] = Inr \<lparr>m_rows = 2, m_columns = 2, m_data = [9, 8, 7, 6]\<rparr>"
    by code_simp
  have e4: "row_vector ?a 1 = Inr \<lparr>m_rows = 1, m_columns = 2, m_data = [3, 4]\<rparr>"
    by code_simp
  have e5: "column_vector ?a 0 = Inr \<lparr>m_rows = 2, m_columns = 1, m_data = [1, 3]\<rparr>"
    by code_simp
  have e6: "transform ?a (\<lambda>r c v. v + 1) = Inr \<lparr>m_rows = 2, m_columns = 2, m_data = [2, 3, 4, 5]\<rparr>"
    by code_simp
  have e7: "add ?a ?b = Inr \<lparr>m_rows = 2, m_columns = 2, m_data = [6, 8, 10, 12]\<rparr>"
    by code_simp
  have e8: "subtract ?a ?b = Inr \<lparr>m_rows = 2, m_columns = 2, m_data = [- 4, - 4, - 4, - 4]\<rparr>"
    by code_simp
  have e9: "negate ?a = Inr \<lparr>m_rows = 2, m_columns = 2, m_data = [0, 0, 0, 0]\<rparr>"
    by code_simp
  have e10: "scale ?a 3 = Inr \<lparr>m_rows = 2, m_columns = 2, m_data = [3, 3, 3, 3]\<rparr>"
    by code_simp
  have e11: "multiply ?a ?b = Inr \<lparr>m_rows = 2, m_columns = 2, m_data = [19, 22, 43, 50]\<rparr>"
    by code_simp
  have e12: "transpose_matrix ?a = Inr \<lparr>m_rows = 2, m_columns = 2, m_data = [1, 3, 2, 4]\<rparr>"
    by code_simp
  have e13: "minor ?a 1 0 = Inr \<lparr>m_rows = 1, m_columns = 1, m_data = [2]\<rparr>"
    by code_simp
  have w1: "matrix_new 0 3 (0 :: int) = Inl ERR_INVALID_SIZE"
    using inv [THEN conjunct1] by simp
  have s1: "(2 :: nat) * 3 \<le> SIZE_MAX" and s2: "m_rows ?a * m_columns ?b \<le> SIZE_MAX"
    and s3: "1 < m_rows ?a \<and> 0 < m_columns ?a"
    by (simp_all add: SIZE_MAX_def size_modulus_def)
  have w2: "\<exists>m. matrix_new 2 3 (7 :: int) = Inr m \<and> matrix_inv m \<and> m_rows m = 2 \<and> m_columns m = 3"
    using e1 s1 class_invariant_preserved [OF ha hb, where nr' = 2 and nc' = 3 and fill = 7,
      THEN conjunct2, THEN conjunct1] by blast
  have w3: "\<exists>m. set_at ?a 1 0 9 = Inr m \<and> matrix_inv m"
    using e2 inv [THEN conjunct2, THEN conjunct2, THEN conjunct1] by blast
  have w4: "assign ?a [1, 2, 3] = Inl ERR_INCOMPATIBLE"
    using inv [THEN conjunct2, THEN conjunct2, THEN conjunct2, THEN conjunct1] by simp
  have w5: "\<exists>m. assign ?a [9, 8, 7, 6] = Inr m \<and> matrix_inv m \<and> m_data m = [9, 8, 7, 6]"
    using e3 inv [THEN conjunct2, THEN conjunct2, THEN conjunct2, THEN conjunct2, THEN conjunct1] by blast
  have w6: "\<exists>m. row_vector ?a 1 = Inr m \<and> matrix_inv m"
    using e4 inv [THEN conjunct2, THEN conjunct2, THEN conjunct2, THEN conjunct2, THEN conjunct2, THEN conjunct1] by blast
  have w7: "\<exists>m. column_vector ?a 0 = Inr m \<and> matrix_inv m"
    using e5 inv [THEN conjunct2, THEN conjunct2, THEN conjunct2, THEN conjunct2, THEN conjunct2, THEN conjunct2, THEN conjunct1] by blast
  have w8: "\<exists>m. transform ?a (\<lambda>r c v. v + 1) = Inr m \<and> matrix_inv m"
    using e6 inv [THEN conjunct2, THEN conjunct2, THEN conjunct2, THEN conjunct2, THEN conjunct2, THEN conjunct2, THEN conjunct2, THEN conjunct1] by blast
  have w9: "\<exists>m. add ?a ?b = Inr m \<and> matrix_inv m"
    using e7 inv [THEN conjunct2, THEN conjunct2, THEN conjunct2, THEN conjunct2, THEN conjunct2, THEN conjunct2, THEN conjunct2, THEN conjunct2, THEN conjunct1] by blast
  have w10: "\<exists>m. subtract ?a ?b = Inr m \<and> matrix_inv m"
    using e8 inv [THEN conjunct2, THEN conjunct2, THEN conjunct2, THEN conjunct2, THEN conjunct2, THEN conjunct2, THEN conjunct2, THEN conjunct2, THEN conjunct2, THEN conjunct1] by blast
  have w11: "\<exists>m. negate ?a = Inr m \<and> matrix_inv m"
    using e9 inv [THEN conjunct2, THEN conjunct2, THEN conjunct2, THEN conjunct2, THEN conjunct2, THEN conjunct2, THEN conjunct2, THEN conjunct2, THEN conjunct2, THEN conjunct2, THEN conjunct1] by blast
  have w12: "\<exists>m. scale ?a 3 = Inr m \<and> matrix_inv m"
    using e10 inv [THEN conjunct2, THEN conjunct2, THEN conjunct2, THEN conjunct2, THEN conjunct2, THEN conjunct2, THEN conjunct2, THEN conjunct2, THEN conjunct2, THEN conjunct2, THEN conjunct2, THEN conjunct1] by blast
  have w13: "\<exists>m. multiply ?a ?b = Inr m \<and> matrix_inv m"
    using e11 s2 inv [THEN conjunct2, THEN conjunct2, THEN conjunct2, THEN conjunct2, THEN conjunct2, THEN conjunct2, THEN conjunct2, THEN conjunct2, THEN conjunct2, THEN conjunct2, THEN conjunct2, THEN conjunct2, THEN conjunct1] by blast
  have w14: "\<exists>m. transpose_matrix ?a = Inr m \<and> matrix_inv m"
    using e12 inv [THEN conjunct2, THEN conjunct2, THEN conjunct2, THEN conjunct2, THEN conjunct2, THEN conjunct2, THEN conjunct2, THEN conjunct2, THEN conjunct2, THEN conjunct2, THEN conjunct2, THEN conjunct2, THEN conjunct2, THEN conjunct1] by blast
  have w15: "\<exists>m. minor ?a 1 0 = Inr m \<and> matrix_inv m"
    using e13 s3 inv [THEN conjunct2, THEN conjunct2, THEN conjunct2, THEN conjunct2, THEN conjunct2, THEN conjunct2, THEN conjunct2, THEN conjunct2, THEN conjunct2, THEN conjunct2, THEN conjunct2, THEN conjunct2, THEN conjunct2, THEN conjunct2] by blast
  show ?thesis
    by (intro conjI) (rule ha hb s1 w1 w2 w3 w4 w5 w6 w7 w8 w9 w10 w11 w12 w13 w14 w15)+
qed

text \<open>
  C10 as it is stated covers every pair of sizes the constructor accepts. For \<open>2 ^ 63\<close> rows
  and \<open>2\<close> columns the \<^verbatim>\<open>size_t\<close> product \<open>rows * columns\<close> wraps around to \<open>0\<close>:
  \<^verbatim>\<open>resize(0)\<close> leaves the vector empty, the loop stores nothing, and the constructor
  returns a matrix whose vector does not hold \<open>rows * columns\<close> elements.
\<close>

theorem constructor_wraps_counterexample:
  "matrix_new 9223372036854775808 2 (7 :: int) =
     Inr \<lparr>m_rows = 9223372036854775808, m_columns = 2, m_data = []\<rparr> \<and>
   \<not> matrix_inv \<lparr>m_rows = 9223372036854775808, m_columns = 2, m_data = [] :: int list\<rparr>"
proof -
  have "size_t (9223372036854775808 * 2) = 0" by (simp add: size_t_def size_modulus_def)
  then have "matrix_new 9223372036854775808 2 (7 :: int) =
     Inr \<lparr>m_rows = 9223372036854775808, m_columns = 2, m_data = []\<rparr>"
    by (simp add: matrix_new_wrap)
  moreover have "\<not> matrix_inv \<lparr>m_rows = 9223372036854775808, m_columns = 2, m_data = [] :: int list\<rparr>"
    by (simp add: matrix_inv_def)
  ultimately show ?thesis by simp
qed

end
